theory Spec2Isabelle
  imports Main "HOL-Library.Word" "HOL-Library.Multiset" "HOL-Library.AList"
begin

section \<open>Data model\<close>

text \<open>
  Go's \<^verbatim>\<open>int64\<close> is a 64-bit word read as two's complement: \<^verbatim>\<open>CreateAt++\<close> wraps.
  A \<^verbatim>\<open>*IntermediatePost\<close> is an address into an explicit heap of posts, because the
  thread store keeps pointers and \<^verbatim>\<open>AddPostToThreads\<close> mutates posts through them.
  A message text is the sequence of its runes, which is all the code looks at; every
  other string is a sequence of bytes.
\<close>

type_synonym int64 = "64 word"

type_synonym addr = nat

type_synonym SlackAttachment = string

text \<open>
  \<^verbatim>\<open>IntermediatePost\<close>. \<^verbatim>\<open>Props\<close> is either nil (\<open>None\<close>) or the one-entry map
  \<^verbatim>\<open>{"attachments": atts}\<close> (\<open>Some atts\<close>), the only value the code ever assigns.
\<close>

record IntermediatePost =
  User :: string
  Channel :: string
  Message :: string
  Props :: "SlackAttachment list option"
  CreateAt :: int64
  Attachments :: "string list"
  Replies :: "addr list"
  IsDirect :: bool
  ChannelMembers :: "string list"

type_synonym heap = "IntermediatePost list"

text \<open>\<^verbatim>\<open>model.ChannelType\<close> is a string type with four named values.\<close>

type_synonym ChannelType = string

definition ChannelTypeOpen :: ChannelType where
  "ChannelTypeOpen = ''O''"

definition ChannelTypePrivate :: ChannelType where
  "ChannelTypePrivate = ''P''"

definition ChannelTypeDirect :: ChannelType where
  "ChannelTypeDirect = ''D''"

definition ChannelTypeGroup :: ChannelType where
  "ChannelTypeGroup = ''G''"

record IntermediateChannel =
  ch_Id :: string
  OriginalName :: string
  Name :: string
  DisplayName :: string
  Members :: "string list"
  MembersUsernames :: "string list"
  Purpose :: string
  Header :: string
  Topic :: string
  Type :: ChannelType

record SlackFile =
  f_Id :: string
  f_Name :: string

record SlackComment =
  c_User :: string
  c_Comment :: string

text \<open>
  The fields of \<^verbatim>\<open>SlackPost\<close> that the transformation reads. \<^verbatim>\<open>File\<close>, \<^verbatim>\<open>Files\<close> and
  \<^verbatim>\<open>Comment\<close> are nilable.
\<close>

record SlackPost =
  sp_User :: string
  sp_Type :: string
  SubType :: string
  TimeStamp :: string
  ThreadTS :: string
  Text :: string
  File :: "SlackFile option"
  Files :: "SlackFile list option"
  sp_Attachments :: "SlackAttachment list"
  Comment :: "SlackComment option"

definition WorkflowUserName :: string where
  "WorkflowUserName = ''imported-workflow''"

definition PosgreSQLMaxPostSize :: nat where
  "PosgreSQLMaxPostSize = 65535 div 4"

text \<open>\<^verbatim>\<open>(*IntermediatePost).Sanitise\<close>: the message is cut to the maximum number of runes.\<close>

definition Sanitise_post :: "IntermediatePost \<Rightarrow> IntermediatePost" where
  "Sanitise_post p =
     (if length (Message p) > PosgreSQLMaxPostSize
      then p\<lparr>Message := take PosgreSQLMaxPostSize (Message p)\<rparr>
      else p)"

section \<open>Thread store\<close>

text \<open>
  The stored form of a post in the remote backend: the post's own fields and the
  documents of its replies. The \<open>Replies\<close> field of the carried record is not used; the
  reply addresses are assigned when the document is decoded into the heap.
\<close>

datatype PostDoc = PostDoc IntermediatePost "PostDoc list"

type_synonym backend = "string \<rightharpoonup> PostDoc"

text \<open>
  Decoding a document allocates the replies, then the post itself, at the end of the heap.
\<close>

fun decode :: "PostDoc \<Rightarrow> heap \<Rightarrow> addr \<times> heap"
  and decode_list :: "PostDoc list \<Rightarrow> heap \<Rightarrow> addr list \<times> heap" where
  "decode (PostDoc p rs) h =
     (case decode_list rs h of (as, h1) \<Rightarrow> (length h1, h1 @ [p\<lparr>Replies := as\<rparr>]))"
| "decode_list [] h = ([], h)"
| "decode_list (d # ds) h =
     (case decode d h of (a, h1) \<Rightarrow>
        (case decode_list ds h1 of (as, h2) \<Rightarrow> (a # as, h2)))"

text \<open>
  Modelled from the spec: the two implementations of the \<^verbatim>\<open>ThreadsStorage\<close> interface
  (\<^verbatim>\<open>newMemoryStorage\<close>, \<^verbatim>\<open>newRedisStorage\<close>) are not among the sources. A Go map from
  thread identifier to post pointer is an association list with distinct keys. The local
  variant is that map alone; the cache-backed variant carries its channel name (the key
  namespace) and a local cache, and reads the remote backend on a cache miss. Nothing in
  the store's contract writes to the backend.
\<close>

datatype ThreadsStorage =
    MemoryStorage "(string \<times> addr) list"
  | RedisStorage string "(string \<times> addr) list"

definition newMemoryStorage :: ThreadsStorage where
  "newMemoryStorage = MemoryStorage []"

definition newRedisStorage :: "string \<Rightarrow> ThreadsStorage" where
  "newRedisStorage channelName = RedisStorage channelName []"

text \<open>Modelled from the spec: backend keys are \<^verbatim>\<open><channel-name>:<thread-timestamp>\<close>.\<close>

definition redisKey :: "string \<Rightarrow> string \<Rightarrow> string" where
  "redisKey channelName ts = channelName @ '':'' @ ts"

fun cache :: "ThreadsStorage \<Rightarrow> (string \<times> addr) list" where
  "cache (MemoryStorage m) = m"
| "cache (RedisStorage ch m) = m"

text \<open>
  Modelled from the spec: \<^verbatim>\<open>has(threadId)\<close> is true iff a root post is resolvable for the
  identifier through the variant's backing state.
\<close>

fun HasThread :: "ThreadsStorage \<Rightarrow> backend \<Rightarrow> string \<Rightarrow> bool" where
  "HasThread (MemoryStorage m) b ts = (map_of m ts \<noteq> None)"
| "HasThread (RedisStorage ch m) b ts = (map_of m ts \<noteq> None \<or> b (redisKey ch ts) \<noteq> None)"

text \<open>
  Modelled from the spec: \<^verbatim>\<open>lookup(threadId)\<close> returns the stored pointer, or nil (\<open>None\<close>)
  when there is none; the cache-backed variant, on a miss in the local cache, fetches the
  document from the backend, decodes it into a new post and caches the pointer.
\<close>

fun LookupThread ::
  "ThreadsStorage \<Rightarrow> backend \<Rightarrow> heap \<Rightarrow> string \<Rightarrow> addr option \<times> ThreadsStorage \<times> heap" where
  "LookupThread (MemoryStorage m) b h ts = (map_of m ts, MemoryStorage m, h)"
| "LookupThread (RedisStorage ch m) b h ts =
     (case map_of m ts of
        Some a \<Rightarrow> (Some a, RedisStorage ch m, h)
      | None \<Rightarrow>
          (case b (redisKey ch ts) of
             None \<Rightarrow> (None, RedisStorage ch m, h)
           | Some d \<Rightarrow>
               (case decode d h of
                  (a, h1) \<Rightarrow> (Some a, RedisStorage ch (AList.update ts a m), h1))))"

text \<open>
  Modelled from the spec: \<^verbatim>\<open>store(threadId, post)\<close> inserts or overwrites the pointer for
  the identifier; the cache-backed variant writes to the local cache only.
\<close>

fun StoreThread :: "ThreadsStorage \<Rightarrow> string \<Rightarrow> addr \<Rightarrow> ThreadsStorage" where
  "StoreThread (MemoryStorage m) ts post = MemoryStorage (AList.update ts post m)"
| "StoreThread (RedisStorage ch m) ts post = RedisStorage ch (AList.update ts post m)"

text \<open>
  Modelled from the spec: \<^verbatim>\<open>changed()\<close> returns the posts stored or looked up during the
  store's lifetime, in arbitrary order: a multiset of pointers.
\<close>

definition GetChangedThreads :: "ThreadsStorage \<Rightarrow> addr multiset" where
  "GetChangedThreads t = mset (map snd (cache t))"

text \<open>
  The life of one store instance is a sequence of calls of its four operations against a
  backend that the instance does not write. An identifier is touched by a call when the
  call stores it or looks it up with success.
\<close>

datatype store_op =
    OpHasThread string
  | OpLookupThread string
  | OpStoreThread string addr
  | OpGetChangedThreads

fun apply_op :: "backend \<Rightarrow> store_op \<Rightarrow> ThreadsStorage \<times> heap \<Rightarrow> ThreadsStorage \<times> heap" where
  "apply_op b (OpHasThread ts) th = th"
| "apply_op b (OpLookupThread ts) th = snd (LookupThread (fst th) b (snd th) ts)"
| "apply_op b (OpStoreThread ts post) th = (StoreThread (fst th) ts post, snd th)"
| "apply_op b OpGetChangedThreads th = th"

fun run_ops :: "backend \<Rightarrow> store_op list \<Rightarrow> ThreadsStorage \<times> heap \<Rightarrow> ThreadsStorage \<times> heap" where
  "run_ops b [] th = th"
| "run_ops b (op # ops) th = run_ops b ops (apply_op b op th)"

fun touched_by :: "backend \<Rightarrow> store_op \<Rightarrow> ThreadsStorage \<times> heap \<Rightarrow> string set" where
  "touched_by b (OpHasThread ts) th = {}"
| "touched_by b (OpLookupThread ts) th =
     (if fst (LookupThread (fst th) b (snd th) ts) = None then {} else {ts})"
| "touched_by b (OpStoreThread ts post) th = {ts}"
| "touched_by b OpGetChangedThreads th = {}"

fun touched :: "backend \<Rightarrow> store_op list \<Rightarrow> ThreadsStorage \<times> heap \<Rightarrow> string set" where
  "touched b [] th = {}"
| "touched b (op # ops) th = touched_by b op th \<union> touched b ops (apply_op b op th)"

text \<open>Whether the backend holds a document for the identifier in the store's namespace.\<close>

fun backendHas :: "ThreadsStorage \<Rightarrow> backend \<Rightarrow> string \<Rightarrow> bool" where
  "backendHas (MemoryStorage m) b ts = False"
| "backendHas (RedisStorage ch m) b ts = (b (redisKey ch ts) \<noteq> None)"

text \<open>Every pointer kept by a store points into the heap.\<close>

definition wf_store :: "ThreadsStorage \<Rightarrow> heap \<Rightarrow> bool" where
  "wf_store t h = list_all (\<lambda>ka. snd ka < length h) (cache t)"

section \<open>Thread assembly\<close>

text \<open>
  What \<^verbatim>\<open>AddPostToThreads\<close> reads and writes: the heap of posts, the channel's thread
  store, the remote backend, the channel's timestamp ledger (\<^verbatim>\<open>map[int64]bool\<close>) and the
  lines written to the log.
\<close>

datatype log_line =
    ErrRootPostNotFound SlackPost
  | WarnOverwritingRoot string
  | WarnSingleMemberChannel string
  | WarnHandleTooLong string
  | WarnDisplayNameTooLong string
  | WarnPurposeTooLong string
  | WarnHeaderTooLong string
  | WarnUserFieldMissing
  | WarnUserDoesNotExist string
  | WarnNoComments
  | WarnPropsSkipPost
  | WarnPropsDropped
  | WarnTypeNotSupported string string
  | ErrAddFile string
  | InfoFileCopied string string

record state =
  heap :: heap
  threads :: ThreadsStorage
  redis :: backend
  timestamps :: "int64 \<rightharpoonup> bool"
  logs :: "log_line list"

text \<open>
  How a call can fail to return: a nil or dangling pointer is dereferenced, or the
  timestamp loop never finds a free value.
\<close>

datatype failure = NilDereference | LoopDiverges

text \<open>
  The loop \<^verbatim>\<open>for { if _, ok := timestamps[post.CreateAt]; !ok { break }; post.CreateAt++ }\<close>.
  It does not return when every 64-bit value is in the ledger: \<open>None\<close>.
\<close>

partial_function (option) avoidDuplicate :: "(int64 \<rightharpoonup> bool) \<Rightarrow> int64 \<Rightarrow> int64 option" where
  "avoidDuplicate ts c = (if ts c = None then Some c else avoidDuplicate ts (c + 1))"

definition markDirect :: "IntermediateChannel \<Rightarrow> IntermediatePost \<Rightarrow> IntermediatePost" where
  "markDirect channel p =
     (if Type channel = ChannelTypeDirect \<or> Type channel = ChannelTypeGroup
      then p\<lparr>IsDirect := True, ChannelMembers := MembersUsernames channel\<rparr>
      else p\<lparr>IsDirect := False\<rparr>)"

definition appendReply :: "addr \<Rightarrow> addr \<Rightarrow> heap \<Rightarrow> heap" where
  "appendReply root post h = h[root := (h ! root)\<lparr>Replies := Replies (h ! root) @ [post]\<rparr>]"

definition storeRoot :: "string \<Rightarrow> addr \<Rightarrow> state \<Rightarrow> state" where
  "storeRoot ts post s =
     (let s1 = (if HasThread (threads s) (redis s) ts
                then s\<lparr>logs := logs s @ [WarnOverwritingRoot ts]\<rparr> else s)
      in s1\<lparr>threads := StoreThread (threads s1) ts post\<rparr>)"

text \<open>
  Lines 290 to 306 of \<^verbatim>\<open>AddPostToThreads\<close>, once the loop has stopped at \<open>c\<close>: the post
  carries the channel's members and the creation time \<open>c\<close>, and \<open>c\<close> is in the ledger.
\<close>

definition stampPost :: "IntermediateChannel \<Rightarrow> addr \<Rightarrow> int64 \<Rightarrow> state \<Rightarrow> state" where
  "stampPost channel post c s =
     s\<lparr>heap := (heap s)[post := (markDirect channel (heap s ! post))\<lparr>CreateAt := c\<rparr>],
       timestamps := (timestamps s)(c \<mapsto> True)\<rparr>"

text \<open>Lines 308 to 336: the post is a reply to a stored root, or it is stored as a root.\<close>

definition threadPost :: "SlackPost \<Rightarrow> addr \<Rightarrow> bool \<Rightarrow> state \<Rightarrow> failure + state" where
  "threadPost original post importWorkflowPosts s1 =
     (if ThreadTS original \<noteq> [] \<and> ThreadTS original \<noteq> TimeStamp original then
        (case LookupThread (threads s1) (redis s1) (heap s1) (ThreadTS original) of
           (None, t2, h2) \<Rightarrow>
             Inr (s1\<lparr>threads := t2, heap := h2,
                      logs := logs s1 @ [ErrRootPostNotFound original]\<rparr>)
         | (Some rootPost, t2, h2) \<Rightarrow>
             if rootPost \<ge> length h2 then Inl NilDereference
             else if \<not> importWorkflowPosts \<and> User (h2 ! rootPost) = WorkflowUserName
             then Inr (s1\<lparr>threads := t2, heap := h2\<rparr>)
             else Inr (s1\<lparr>threads := t2, heap := appendReply rootPost post h2\<rparr>))
      else
        let s2 = s1\<lparr>heap := (heap s1)[post := Sanitise_post (heap s1 ! post)]\<rparr> in
        if TimeStamp original = ThreadTS original
        then Inr (storeRoot (ThreadTS original) post s2)
        else Inr (storeRoot (TimeStamp original) post s2))"

definition AddPostToThreads ::
  "SlackPost \<Rightarrow> addr \<Rightarrow> IntermediateChannel \<Rightarrow> bool \<Rightarrow> state \<Rightarrow> failure + state" where
  "AddPostToThreads original post channel importWorkflowPosts s =
     (if post \<ge> length (heap s) then Inl NilDereference
      else
        case avoidDuplicate (timestamps s) (CreateAt (markDirect channel (heap s ! post))) of
          None \<Rightarrow> Inl LoopDiverges
        | Some c \<Rightarrow> threadPost original post importWorkflowPosts (stampPost channel post c s))"

text \<open>
  The calls of \<^verbatim>\<open>AddPostToThreads\<close> that the loop of \<^verbatim>\<open>TransformPosts\<close> makes for the
  accepted messages of one channel, in order, each message with the post made for it.
\<close>

fun AddPostsToThreads ::
  "(SlackPost \<times> addr) list \<Rightarrow> IntermediateChannel \<Rightarrow> bool \<Rightarrow> state \<Rightarrow> failure + state" where
  "AddPostsToThreads [] channel importWorkflowPosts s = Inr s"
| "AddPostsToThreads (m # ms) channel importWorkflowPosts s =
     (case AddPostToThreads (fst m) (snd m) channel importWorkflowPosts s of
        Inl e \<Rightarrow> Inl e
      | Inr s1 \<Rightarrow> AddPostsToThreads ms channel importWorkflowPosts s1)"

text \<open>The creation times that the posts of the messages carry in a state.\<close>

definition createAts :: "(SlackPost \<times> addr) list \<Rightarrow> state \<Rightarrow> int64 list" where
  "createAts ms s = map (\<lambda>m. CreateAt (heap s ! snd m)) ms"

section \<open>Users and channels\<close>

record IntermediateUser =
  u_Id :: string
  Username :: string
  FirstName :: string
  LastName :: string
  Position :: string
  Email :: string
  Password :: string
  Memberships :: "string list"
  AuthData :: "string option"
  AuthService :: string

type_synonym users = "string \<rightharpoonup> IntermediateUser"

text \<open>The fields of \<^verbatim>\<open>SlackChannel\<close> that \<^verbatim>\<open>TransformChannels\<close> reads.\<close>

record SlackChannel =
  sc_Id :: string
  sc_Name :: string
  sc_Members :: "string list"
  sc_Purpose :: string
  sc_Topic :: string
  sc_Type :: ChannelType

text \<open>
  Functions of this repository and of Go's libraries that the sources call and do not
  define; they are parameters of the model.
\<close>

record helpers =
  SlackConvertChannelName :: "string \<Rightarrow> string \<Rightarrow> string"
  isValidChannelNameCharacters :: "string \<Rightarrow> bool"
  truncateRunes :: "string \<Rightarrow> nat \<Rightarrow> string"
  RuneCountInString :: "string \<Rightarrow> nat"
  ToLower :: "string \<Rightarrow> string"

text \<open>Constants of the vendored \<^verbatim>\<open>model\<close> package.\<close>

definition ChannelGroupMaxUsers :: nat where
  "ChannelGroupMaxUsers = 8"

definition ChannelNameMaxLength :: nat where
  "ChannelNameMaxLength = 64"

definition ChannelDisplayNameMaxRunes :: nat where
  "ChannelDisplayNameMaxRunes = 64"

definition ChannelPurposeMaxRunes :: nat where
  "ChannelPurposeMaxRunes = 250"

definition ChannelHeaderMaxRunes :: nat where
  "ChannelHeaderMaxRunes = 1024"

definition PostPropsMaxRunes :: nat where
  "PostPropsMaxRunes = 800000"

text \<open>\<^verbatim>\<open>strings.Trim(s, cutset)\<close> for a cutset of ASCII bytes.\<close>

definition Trim :: "string \<Rightarrow> string \<Rightarrow> string" where
  "Trim s cutset =
     rev (dropWhile (\<lambda>c. c \<in> set cutset) (rev (dropWhile (\<lambda>c. c \<in> set cutset) s)))"

text \<open>
  \<^verbatim>\<open>(*IntermediateChannel).Sanitise\<close>, with the warnings it logs, in its four parts: the
  handle (lines 43 to 53), the display name (55 to 62), the purpose (64 to 67) and the
  header (69 to 72). A direct channel is left as it is.
\<close>

definition sanitiseHandle ::
  "helpers \<Rightarrow> IntermediateChannel \<Rightarrow> IntermediateChannel \<times> log_line list" where
  "sanitiseHandle H c =
     (let c1 = c\<lparr>Name := Trim (Name c) ''_-''\<rparr>;
          c2 = (if length (Name c1) > ChannelNameMaxLength
                then c1\<lparr>Name := take ChannelNameMaxLength (Name c1)\<rparr> else c1);
          l2 = (if length (Name c1) > ChannelNameMaxLength
                then [WarnHandleTooLong (DisplayName c1)] else []);
          c3 = (if length (Name c2) = 1
                then c2\<lparr>Name := ''slack-channel-'' @ Name c2\<rparr> else c2);
          c4 = (if \<not> isValidChannelNameCharacters H (Name c3)
                then c3\<lparr>Name := ToLower H (ch_Id c3)\<rparr> else c3)
      in (c4, l2))"

definition sanitiseDisplayName ::
  "helpers \<Rightarrow> IntermediateChannel \<Rightarrow> IntermediateChannel \<times> log_line list" where
  "sanitiseDisplayName H c =
     (let c1 = c\<lparr>DisplayName := Trim (DisplayName c) ''_-''\<rparr>;
          c2 = (if RuneCountInString H (DisplayName c1) > ChannelDisplayNameMaxRunes
                then c1\<lparr>DisplayName :=
                         truncateRunes H (DisplayName c1) ChannelDisplayNameMaxRunes\<rparr>
                else c1);
          l2 = (if RuneCountInString H (DisplayName c1) > ChannelDisplayNameMaxRunes
                then [WarnDisplayNameTooLong (DisplayName c1)] else []);
          c3 = (if length (DisplayName c2) = 1
                then c2\<lparr>DisplayName := ''slack-channel-'' @ DisplayName c2\<rparr> else c2)
      in (c3, l2))"

definition sanitisePurpose ::
  "helpers \<Rightarrow> IntermediateChannel \<Rightarrow> IntermediateChannel \<times> log_line list" where
  "sanitisePurpose H c =
     (if RuneCountInString H (Purpose c) > ChannelPurposeMaxRunes
      then (c\<lparr>Purpose := truncateRunes H (Purpose c) ChannelPurposeMaxRunes\<rparr>,
            [WarnPurposeTooLong (DisplayName c)])
      else (c, []))"

definition sanitiseHeader ::
  "helpers \<Rightarrow> IntermediateChannel \<Rightarrow> IntermediateChannel \<times> log_line list" where
  "sanitiseHeader H c =
     (if RuneCountInString H (Header c) > ChannelHeaderMaxRunes
      then (c\<lparr>Header := truncateRunes H (Header c) ChannelHeaderMaxRunes\<rparr>,
            [WarnHeaderTooLong (DisplayName c)])
      else (c, []))"

definition Sanitise_channel ::
  "helpers \<Rightarrow> IntermediateChannel \<Rightarrow> IntermediateChannel \<times> log_line list" where
  "Sanitise_channel H c =
     (if Type c = ChannelTypeDirect then (c, [])
      else
        case sanitiseHandle H c of (c1, l1) \<Rightarrow>
        case sanitiseDisplayName H c1 of (c2, l2) \<Rightarrow>
        case sanitisePurpose H c2 of (c3, l3) \<Rightarrow>
        case sanitiseHeader H c3 of (c4, l4) \<Rightarrow> (c4, l1 @ l2 @ l3 @ l4))"

definition filterValidMembers :: "string list \<Rightarrow> users \<Rightarrow> string list" where
  "filterValidMembers members us = filter (\<lambda>member. us member \<noteq> None) members"

definition getOriginalName :: "SlackChannel \<Rightarrow> string" where
  "getOriginalName channel =
     (if sc_Name channel = [] then sc_Id channel else sc_Name channel)"

text \<open>
  The body of the loop of \<^verbatim>\<open>TransformChannels\<close> for a channel that is not skipped: the
  group channel with too many valid members becomes a private channel named by its
  purpose, then the intermediate channel is built and sanitised.
\<close>

definition convertChannel ::
  "helpers \<Rightarrow> string list \<Rightarrow> SlackChannel \<Rightarrow> IntermediateChannel \<times> log_line list" where
  "convertChannel H validMembers channel0 =
     (let channel =
            (if sc_Type channel0 = ChannelTypeGroup \<and> length validMembers > ChannelGroupMaxUsers
             then channel0\<lparr>sc_Name := sc_Purpose channel0, sc_Type := ChannelTypePrivate\<rparr>
             else channel0);
          name = SlackConvertChannelName H (sc_Name channel) (sc_Id channel)
      in Sanitise_channel H
           \<lparr>ch_Id = [], OriginalName = getOriginalName channel, Name = name,
            DisplayName = getOriginalName channel, Members = validMembers,
            MembersUsernames = [], Purpose = sc_Purpose channel, Header = sc_Topic channel,
            Topic = [], Type = sc_Type channel\<rparr>)"

text \<open>\<^verbatim>\<open>TransformChannels\<close>: the result channels in order, and the warnings logged.\<close>

fun TransformChannels ::
  "helpers \<Rightarrow> users \<Rightarrow> SlackChannel list \<Rightarrow> IntermediateChannel list \<times> log_line list" where
  "TransformChannels H us [] = ([], [])"
| "TransformChannels H us (channel # channels) =
     (let validMembers = filterValidMembers (sc_Members channel) us;
          (rest, restLogs) = TransformChannels H us channels
      in if (sc_Type channel = ChannelTypeDirect \<or> sc_Type channel = ChannelTypeGroup)
            \<and> length validMembers \<le> 1
         then (rest, WarnSingleMemberChannel (sc_Name channel) # restLogs)
         else (case convertChannel H validMembers channel of
                 (newChannel, l) \<Rightarrow> (newChannel # rest, l @ restLogs)))"

section \<open>Transformation of posts\<close>

text \<open>The values of \<^verbatim>\<open>TransformConfig\<close> that the loop over a channel's posts reads.\<close>

record TransformConfig =
  SkipAttachments :: bool
  DiscardInvalidProps :: bool
  ImportWorkflowMessages :: bool

text \<open>
  The case of the \<^verbatim>\<open>switch\<close> in \<^verbatim>\<open>TransformPosts\<close> that a message takes: the first of the
  predicates \<^verbatim>\<open>IsPlainMessage\<close>, \<^verbatim>\<open>IsFileComment\<close>, \<^verbatim>\<open>IsBotMessage\<close>, ... that holds, or
  the default case.
\<close>

datatype MessageKind =
    PlainMessage
  | FileComment
  | BotMessage
  | JoinLeaveMessage
  | MeMessage
  | ChannelTopicMessage
  | ChannelPurposeMessage
  | ChannelNameMessage
  | UnsupportedMessage

text \<open>
  What \<^verbatim>\<open>TransformPosts\<close> takes from outside the sources: the predicates on a message
  (as the case they select), \<^verbatim>\<open>SlackConvertTimeStamp\<close>, the copy of an uploaded file
  into the attachments directory (the destination path, or \<open>None\<close> when
  \<^verbatim>\<open>addFileToPost\<close> returns an error), the number of runes of the JSON form of the
  props, and the identifier drawn by \<^verbatim>\<open>model.NewId\<close>.
\<close>

record post_helpers =
  messageKind :: "SlackPost \<Rightarrow> MessageKind"
  SlackConvertTimeStamp :: "string \<Rightarrow> int64"
  copyFile :: "SlackFile \<Rightarrow> string option"
  propsRunes :: "SlackAttachment list \<Rightarrow> nat"
  NewId :: string

text \<open>\<^verbatim>\<open>addFileToPost\<close> with the caller's logging of its error.\<close>

definition addFileToPost ::
  "post_helpers \<Rightarrow> SlackFile \<Rightarrow> IntermediatePost \<times> log_line list \<Rightarrow>
   IntermediatePost \<times> log_line list" where
  "addFileToPost P file pl =
     (case copyFile P file of
        None \<Rightarrow> (fst pl, snd pl @ [ErrAddFile (f_Id file)])
      | Some destFilePath \<Rightarrow>
          ((fst pl)\<lparr>Attachments := Attachments (fst pl) @ [destFilePath]\<rparr>,
           snd pl @ [InfoFileCopied (f_Id file) destFilePath]))"

definition addFiles ::
  "post_helpers \<Rightarrow> TransformConfig \<Rightarrow> SlackPost \<Rightarrow> IntermediatePost \<Rightarrow>
   IntermediatePost \<times> log_line list" where
  "addFiles P cfg post newPost =
     (if (File post \<noteq> None \<or> Files post \<noteq> None) \<and> \<not> SkipAttachments cfg
      then (case File post of
              Some file \<Rightarrow> addFileToPost P file (newPost, [])
            | None \<Rightarrow>
                (case Files post of
                   Some files \<Rightarrow> fold (addFileToPost P) files (newPost, [])
                 | None \<Rightarrow> (newPost, [])))
      else (newPost, []))"

text \<open>
  The props of a plain or bot message (lines 484 to 498 and 554 to 568): \<open>None\<close> is
  \<^verbatim>\<open>continue\<close>, the message is given up.
\<close>

definition addProps ::
  "post_helpers \<Rightarrow> TransformConfig \<Rightarrow> SlackPost \<Rightarrow> IntermediatePost \<Rightarrow>
   (IntermediatePost option) \<times> log_line list" where
  "addProps P cfg post newPost =
     (if length (sp_Attachments post) > 0
      then if propsRunes P (sp_Attachments post) \<le> PostPropsMaxRunes
           then (Some (newPost\<lparr>Props := Some (sp_Attachments post)\<rparr>), [])
           else if DiscardInvalidProps cfg
                then (None, [WarnPropsSkipPost])
                else (Some newPost, [WarnPropsDropped])
      else (Some newPost, []))"

definition newIntermediatePost ::
  "string \<Rightarrow> string \<Rightarrow> string \<Rightarrow> int64 \<Rightarrow> IntermediatePost" where
  "newIntermediatePost user channel message createAt =
     \<lparr>User = user, Channel = channel, Message = message, Props = None, CreateAt = createAt,
      Attachments = [], Replies = [], IsDirect = False, ChannelMembers = []\<rparr>"

text \<open>The new post is put on the heap and handed to \<^verbatim>\<open>AddPostToThreads\<close>.\<close>

definition addNewPost ::
  "TransformConfig \<Rightarrow> IntermediateChannel \<Rightarrow> SlackPost \<Rightarrow> IntermediatePost \<Rightarrow> state \<Rightarrow>
   failure + state" where
  "addNewPost cfg channel post newPost s =
     AddPostToThreads post (length (heap s)) channel (ImportWorkflowMessages cfg)
       (s\<lparr>heap := heap s @ [newPost]\<rparr>)"

definition say :: "log_line list \<Rightarrow> state \<Rightarrow> state" where
  "say ls s = s\<lparr>logs := logs s @ ls\<rparr>"

text \<open>
  \<^verbatim>\<open>selectOrCreateWorkflowUser\<close>. \<^verbatim>\<open>Sanitise\<close> leaves the new user as it is: its email is
  not empty and its position and names are shorter than the limits.
\<close>

definition selectOrCreateWorkflowUser :: "post_helpers \<Rightarrow> users \<Rightarrow> IntermediateUser \<times> users" where
  "selectOrCreateWorkflowUser P us =
     (case us ''importedworkflow'' of
        Some existingUser \<Rightarrow> (existingUser, us)
      | None \<Rightarrow>
          (let newUser =
                 \<lparr>u_Id = ''importedworkflow'', Username = WorkflowUserName,
                  FirstName = WorkflowUserName, LastName = [], Position = [],
                  Email = ''imported-workflow@tinkoff.ru'', Password = NewId P,
                  Memberships = [], AuthData = None, AuthService = []\<rparr>
           in (newUser, us(''importedworkflow'' \<mapsto> newUser))))"

text \<open>The messages that are imported as a plain post of their author, without files.\<close>

definition authoredPost ::
  "post_helpers \<Rightarrow> TransformConfig \<Rightarrow> IntermediateChannel \<Rightarrow> SlackPost \<Rightarrow>
   users \<times> state \<Rightarrow> failure + users \<times> state" where
  "authoredPost P cfg channel post us =
     (if sp_User post = [] then Inr (fst us, say [WarnUserFieldMissing] (snd us))
      else case fst us (sp_User post) of
        None \<Rightarrow> Inr (fst us, say [WarnUserDoesNotExist (sp_User post)] (snd us))
      | Some author \<Rightarrow>
          (case addNewPost cfg channel post
                  (newIntermediatePost (Username author) (Name channel) (Text post)
                     (SlackConvertTimeStamp P (TimeStamp post))) (snd us) of
             Inl e \<Rightarrow> Inl e
           | Inr s \<Rightarrow> Inr (fst us, s)))"

text \<open>
  The files and props of a plain or bot message, then \<^verbatim>\<open>AddPostToThreads\<close>, unless the
  props make the loop continue.
\<close>

definition filesPropsAndAdd ::
  "post_helpers \<Rightarrow> TransformConfig \<Rightarrow> IntermediateChannel \<Rightarrow> SlackPost \<Rightarrow>
   IntermediatePost \<Rightarrow> state \<Rightarrow> failure + state" where
  "filesPropsAndAdd P cfg channel post newPost0 s =
     (case addFiles P cfg post newPost0 of
        (newPost1, fileLogs) \<Rightarrow>
          (case addProps P cfg post newPost1 of
             (None, propLogs) \<Rightarrow> Inr (say (fileLogs @ propLogs) s)
           | (Some newPost, propLogs) \<Rightarrow>
               addNewPost cfg channel post newPost (say (fileLogs @ propLogs) s)))"

text \<open>One turn of the loop over a channel's posts in \<^verbatim>\<open>TransformPosts\<close>.\<close>

definition transformPost ::
  "post_helpers \<Rightarrow> TransformConfig \<Rightarrow> IntermediateChannel \<Rightarrow> SlackPost \<Rightarrow>
   users \<times> state \<Rightarrow> failure + users \<times> state" where
  "transformPost P cfg channel post us =
     (case messageKind P post of
        PlainMessage \<Rightarrow>
          (if sp_User post = [] then Inr (fst us, say [WarnUserFieldMissing] (snd us))
           else case fst us (sp_User post) of
             None \<Rightarrow> Inr (fst us, say [WarnUserDoesNotExist (sp_User post)] (snd us))
           | Some author \<Rightarrow>
               (case filesPropsAndAdd P cfg channel post
                       (newIntermediatePost (Username author) (Name channel) (Text post)
                          (SlackConvertTimeStamp P (TimeStamp post))) (snd us) of
                  Inl e \<Rightarrow> Inl e
                | Inr s \<Rightarrow> Inr (fst us, s)))
      | FileComment \<Rightarrow>
          (case Comment post of
             None \<Rightarrow> Inr (fst us, say [WarnNoComments] (snd us))
           | Some comment \<Rightarrow>
               if c_User comment = [] then Inr (fst us, say [WarnUserFieldMissing] (snd us))
               else case fst us (c_User comment) of
                 None \<Rightarrow> Inr (fst us, say [WarnUserDoesNotExist (c_User comment)] (snd us))
               | Some author \<Rightarrow>
                   (case addNewPost cfg channel post
                           (newIntermediatePost (Username author) (Name channel)
                              (c_Comment comment)
                              (SlackConvertTimeStamp P (TimeStamp post))) (snd us) of
                      Inl e \<Rightarrow> Inl e
                    | Inr s \<Rightarrow> Inr (fst us, s)))
      | BotMessage \<Rightarrow>
          (if \<not> ImportWorkflowMessages cfg then Inr us
           else case selectOrCreateWorkflowUser P (fst us) of
             (author, us1) \<Rightarrow>
               (case filesPropsAndAdd P cfg channel post
                       (newIntermediatePost (Username author) (Name channel) (Text post)
                          (SlackConvertTimeStamp P (TimeStamp post))) (snd us) of
                  Inl e \<Rightarrow> Inl e
                | Inr s \<Rightarrow> Inr (us1, s)))
      | JoinLeaveMessage \<Rightarrow> Inr us
      | MeMessage \<Rightarrow> Inr us
      | ChannelTopicMessage \<Rightarrow> authoredPost P cfg channel post us
      | ChannelPurposeMessage \<Rightarrow> authoredPost P cfg channel post us
      | ChannelNameMessage \<Rightarrow> authoredPost P cfg channel post us
      | UnsupportedMessage \<Rightarrow>
          Inr (fst us, say [WarnTypeNotSupported (sp_Type post) (SubType post)] (snd us)))"

text \<open>The loop over the sorted posts of one channel.\<close>

fun transformChannelPosts ::
  "post_helpers \<Rightarrow> TransformConfig \<Rightarrow> IntermediateChannel \<Rightarrow> SlackPost list \<Rightarrow>
   users \<times> state \<Rightarrow> failure + users \<times> state" where
  "transformChannelPosts P cfg channel [] us = Inr us"
| "transformChannelPosts P cfg channel (post # posts) us =
     (case transformPost P cfg channel post us of
        Inl e \<Rightarrow> Inl e
      | Inr us1 \<Rightarrow> transformChannelPosts P cfg channel posts us1)"

section \<open>Example inputs\<close>

definition ex_channel :: IntermediateChannel where
  "ex_channel = \<lparr>ch_Id = [], OriginalName = ''general'', Name = ''general'',
     DisplayName = ''general'', Members = [], MembersUsernames = [], Purpose = [],
     Header = [], Topic = [], Type = ChannelTypeOpen\<rparr>"

definition ex_message :: "string \<Rightarrow> string \<Rightarrow> SlackPost" where
  "ex_message ts threadTs = \<lparr>sp_User = ''U1'', sp_Type = ''message'', SubType = [],
     TimeStamp = ts, ThreadTS = threadTs, Text = ''hello'', File = None, Files = None,
     sp_Attachments = [], Comment = None\<rparr>"

definition ex_post :: "string \<Rightarrow> int64 \<Rightarrow> IntermediatePost" where
  "ex_post user c = \<lparr>User = user, Channel = ''general'', Message = ''hello'', Props = None,
     CreateAt = c, Attachments = [], Replies = [], IsDirect = False, ChannelMembers = []\<rparr>"

definition ex_state :: "ThreadsStorage \<Rightarrow> state" where
  "ex_state t = \<lparr>heap = [ex_post ''alice'' 10, ex_post ''bob'' 10], threads = t,
     redis = Map.empty, timestamps = [10 \<mapsto> True], logs = []\<rparr>"

definition ex_state_of :: "heap \<Rightarrow> ThreadsStorage \<Rightarrow> (int64 \<rightharpoonup> bool) \<Rightarrow> state" where
  "ex_state_of h t ts = \<lparr>heap = h, threads = t, redis = Map.empty, timestamps = ts, logs = []\<rparr>"

definition ex_workflow_state :: state where
  "ex_workflow_state =
     ex_state_of [ex_post ''alice'' 10, ex_post WorkflowUserName 10]
       (MemoryStorage [(''10'', 1)]) [10 \<mapsto> True]"

definition ex_late_state :: state where
  "ex_late_state =
     ex_state_of [ex_post ''alice'' 9223372036854775807, ex_post ''bob'' 9223372036854775807]
       newMemoryStorage Map.empty"

definition ex_backend :: backend where
  "ex_backend = [redisKey ''general'' ''10'' \<mapsto>
     PostDoc (ex_post ''alice'' 10000) [PostDoc (ex_post ''bob'' 15000) []]]"

definition ex_resumed_state :: state where
  "ex_resumed_state = \<lparr>heap = [ex_post ''carol'' 15000], threads = newRedisStorage ''general'',
     redis = ex_backend, timestamps = Map.empty, logs = []\<rparr>"

definition ex_user :: "string \<Rightarrow> IntermediateUser" where
  "ex_user n = \<lparr>u_Id = n, Username = n, FirstName = [], LastName = [], Position = [],
     Email = n @ ''@example.com'', Password = [], Memberships = [], AuthData = None,
     AuthService = []\<rparr>"

definition ex_users :: users where
  "ex_users = map_of (map (\<lambda>n. (n, ex_user n))
     [''U1'', ''U2'', ''U3'', ''U4'', ''U5'', ''U6'', ''U7'', ''U8'', ''U9''])"

definition ex_helpers :: helpers where
  "ex_helpers = \<lparr>SlackConvertChannelName = (\<lambda>name ident. name),
     isValidChannelNameCharacters = (\<lambda>name. True),
     truncateRunes = (\<lambda>s n. take n s), RuneCountInString = length, ToLower = (\<lambda>s. s)\<rparr>"

definition ex_direct :: SlackChannel where
  "ex_direct = \<lparr>sc_Id = ''D1'', sc_Name = [], sc_Members = [''U1'', ''gone''],
     sc_Purpose = [], sc_Topic = [], sc_Type = ChannelTypeDirect\<rparr>"

definition ex_group :: SlackChannel where
  "ex_group = \<lparr>sc_Id = ''G1'', sc_Name = ''mpdm-all'',
     sc_Members = [''U1'', ''U2'', ''U3'', ''U4'', ''U5'', ''U6'', ''U7'', ''U8'', ''U9''],
     sc_Purpose = ''big-group'', sc_Topic = [], sc_Type = ChannelTypeGroup\<rparr>"




definition ex_shared_backend :: backend where
  "ex_shared_backend = [redisKey ''channel'' ''21'' \<mapsto> PostDoc (ex_post ''alice'' 21) [],
     redisKey ''channel'' ''22'' \<mapsto> PostDoc (ex_post ''alice'' 21) []]"

section \<open>The timestamp loop\<close>

lemma avoidDuplicate_steps:
  "ts (c + of_nat k) = None \<Longrightarrow> (\<forall>j<k. ts (c + of_nat j) \<noteq> None) \<Longrightarrow>
   avoidDuplicate ts c = Some (c + of_nat k)"
proof (induction k arbitrary: c)
  case 0
  then show ?case by (simp add: avoidDuplicate.simps)
next
  case (Suc k)
  have "ts (c + of_nat 0) \<noteq> None" using Suc.prems(2) by blast
  then have c: "ts c \<noteq> None" by simp
  have e: "\<And>j. c + of_nat (Suc j) = (c + 1) + of_nat j" by (simp add: ac_simps)
  have a: "ts ((c + 1) + of_nat k) = None" using Suc.prems(1) unfolding e .
  have b: "\<forall>j<k. ts ((c + 1) + of_nat j) \<noteq> None"
  proof (intro allI impI)
    fix j assume "j < k"
    then have "Suc j < Suc k" by simp
    with Suc.prems(2) have "ts (c + of_nat (Suc j)) \<noteq> None" by blast
    then show "ts ((c + 1) + of_nat j) \<noteq> None" unfolding e .
  qed
  have "avoidDuplicate ts c = avoidDuplicate ts (c + 1)"
    using c by (subst avoidDuplicate.simps) auto
  also have "\<dots> = Some ((c + 1) + of_nat k)" by (rule Suc.IH[OF a b])
  finally show ?case unfolding e .
qed

lemma avoidDuplicate_free:
  assumes "avoidDuplicate ts c = Some y"
  shows "ts y = None"
  by (rule avoidDuplicate.raw_induct[where P = "\<lambda>ts c y. ts y = None", OF _ assms])
     (auto split: if_splits)

lemma word_reach: "(c0 :: int64) + of_nat (unat (x - c0)) = x"
  by simp

lemma avoidDuplicate_least_nat:
  assumes "ts x = None"
  shows "avoidDuplicate ts c0 = Some (c0 + of_nat (LEAST k. ts (c0 + of_nat k) = None))"
proof -
  let ?P = "\<lambda>k. ts (c0 + of_nat k) = None"
  have "?P (unat (x - c0))" using assms by simp
  then have l: "?P (LEAST k. ?P k)" by (rule LeastI)
  have "\<forall>j<(LEAST k. ?P k). ts (c0 + of_nat j) \<noteq> None"
    using not_less_Least by blast
  with l show ?thesis by (rule avoidDuplicate_steps)
qed

lemma avoidDuplicate_returns:
  "ts x = None \<Longrightarrow> \<exists>c. avoidDuplicate ts c0 = Some c"
  using avoidDuplicate_least_nat by blast

lemma avoidDuplicate_least:
  assumes r: "avoidDuplicate ts c0 = Some c" and lt: "unat (x - c0) < unat (c - c0)"
  shows "ts x \<noteq> None"
proof -
  let ?P = "\<lambda>k. ts (c0 + of_nat k) = None"
  let ?k = "LEAST k. ?P k"
  have f: "ts c = None" using r by (rule avoidDuplicate_free)
  have "avoidDuplicate ts c0 = Some (c0 + of_nat ?k)"
    using f by (rule avoidDuplicate_least_nat)
  with r have "c = c0 + of_nat ?k" by simp
  then have "c - c0 = of_nat ?k" by (simp only: add_diff_cancel_left')
  then have "unat (c - c0) = unat (of_nat ?k :: int64)" by simp
  also have "\<dots> \<le> ?k" by (simp add: unat_of_nat)
  finally have "unat (x - c0) < ?k" using lt by simp
  then have "\<not> ?P (unat (x - c0))" by (rule not_less_Least)
  then show ?thesis by simp
qed

section \<open>Properties of the thread store\<close>

lemma decode_extends:
  "decode d h = (a, h') \<Longrightarrow> (\<exists>ext. h' = h @ ext) \<and> a < length h' \<and> length h \<le> a"
  "decode_list ds h = (as, h'') \<Longrightarrow> (\<exists>ext. h'' = h @ ext) \<and> (\<forall>a\<in>set as. a < length h'')"
proof (induction d h and ds h arbitrary: a h' and as h'' rule: decode_decode_list.induct)
  case (1 p rs h)
  obtain as1 h1 where d: "decode_list rs h = (as1, h1)" by (cases "decode_list rs h")
  from 1(1)[OF d] obtain ext where e: "h1 = h @ ext" by blast
  from 1(2) d have "a = length h1" "h' = h1 @ [p\<lparr>Replies := as1\<rparr>]" by auto
  with e show ?case by auto
next
  case (2 h)
  then show ?case by simp
next
  case (3 d ds h)
  obtain a1 h1 where d1: "decode d h = (a1, h1)" by (cases "decode d h")
  obtain as2 h2 where d2: "decode_list ds h1 = (as2, h2)" by (cases "decode_list ds h1")
  from 3(1)[OF d1] obtain e1 where e1: "h1 = h @ e1" and a1: "a1 < length h1" by blast
  from 3(2)[OF d1[symmetric] d2] obtain e2 where e2: "h2 = h1 @ e2" and a2: "\<forall>a\<in>set as2. a < length h2" by blast
  from 3(3) d1 d2 have "as = a1 # as2" "h'' = h2" by auto
  with e1 e2 a1 a2 show ?case by auto
qed

lemma set_update_subset: "set (AList.update k v al) \<subseteq> insert (k, v) (set al)"
  by (induction al) auto

lemma wf_store_iff: "wf_store t h \<longleftrightarrow> (\<forall>ka\<in>set (cache t). snd ka < length h)"
  by (simp add: wf_store_def list_all_iff)

lemma wf_store_mono: "wf_store t h \<Longrightarrow> length h \<le> length h' \<Longrightarrow> wf_store t h'"
  by (fastforce simp: wf_store_iff)

lemma wf_store_map_of: "wf_store t h \<Longrightarrow> map_of (cache t) ts = Some a \<Longrightarrow> a < length h"
proof -
  assume w: "wf_store t h" and m: "map_of (cache t) ts = Some a"
  from m have "(ts, a) \<in> set (cache t)" by (rule map_of_SomeD)
  with w have "snd (ts, a) < length h" unfolding wf_store_iff by blast
  then show ?thesis by simp
qed

lemma cache_StoreThread: "cache (StoreThread t ts a) = AList.update ts a (cache t)"
  by (cases t) simp_all

lemma wf_store_StoreThread: "wf_store t h \<Longrightarrow> a < length h \<Longrightarrow> wf_store (StoreThread t ts a) h"
  using set_update_subset[of ts a "cache t"]
  by (auto simp: wf_store_iff cache_StoreThread)

lemma map_of_StoreThread:
  "map_of (cache (StoreThread t ts a)) = (map_of (cache t))(ts \<mapsto> a)"
  by (simp add: cache_StoreThread update_conv')

lemma LookupThread_absent:
  "\<not> HasThread t b ts \<Longrightarrow> LookupThread t b h ts = (None, t, h)"
  by (cases t) auto

lemma LookupThread_cached:
  "map_of (cache t) ts = Some a \<Longrightarrow> LookupThread t b h ts = (Some a, t, h)"
  by (cases t) auto

lemma LookupThread_extends:
  "LookupThread t b h ts = (r, t', h') \<Longrightarrow> \<exists>ext. h' = h @ ext"
  by (cases t) (auto split: option.splits prod.splits dest: decode_extends(1))

lemma LookupThread_wf:
  assumes "wf_store t h" "LookupThread t b h ts = (r, t', h')"
  shows "wf_store t' h' \<and> (\<forall>a. r = Some a \<longrightarrow> a < length h')"
proof (cases t)
  case (MemoryStorage m)
  with assms wf_store_map_of[of t h ts] show ?thesis
    by auto
next
  case (RedisStorage ch m)
  show ?thesis
  proof (cases "map_of m ts")
    case (Some a)
    with assms RedisStorage wf_store_map_of[of t h ts] show ?thesis
      by auto
  next
    case None
    show ?thesis
    proof (cases "b (redisKey ch ts)")
      case n: None
      with None assms RedisStorage show ?thesis by auto
    next
      case (Some d)
      obtain a h1 where d: "decode d h = (a, h1)" by (cases "decode d h")
      from decode_extends(1)[OF d] obtain ext where e: "h1 = h @ ext" and a: "a < length h1" by blast
      from assms(2) RedisStorage None Some d
      have r: "r = Some a" "t' = RedisStorage ch (AList.update ts a m)" "h' = h1" by auto
      have "wf_store (RedisStorage ch m) h1" using assms(1) RedisStorage e
        by (auto intro: wf_store_mono)
      then have "wf_store (StoreThread (RedisStorage ch m) ts a) h1" using a
        by (rule wf_store_StoreThread)
      with r a show ?thesis by simp
    qed
  qed
qed

section \<open>Properties of thread assembly\<close>

lemma markDirect_fields:
  "CreateAt (markDirect ch p) = CreateAt p"
  "Replies (markDirect ch p) = Replies p"
  "User (markDirect ch p) = User p"
  by (simp_all add: markDirect_def)

lemma Sanitise_post_fields:
  "CreateAt (Sanitise_post p) = CreateAt p"
  "Replies (Sanitise_post p) = Replies p"
  "User (Sanitise_post p) = User p"
  by (simp_all add: Sanitise_post_def)

lemma stampPost_fields:
  "heap (stampPost ch post c s) = (heap s)[post := (markDirect ch (heap s ! post))\<lparr>CreateAt := c\<rparr>]"
  "timestamps (stampPost ch post c s) = (timestamps s)(c \<mapsto> True)"
  "threads (stampPost ch post c s) = threads s"
  "redis (stampPost ch post c s) = redis s"
  "logs (stampPost ch post c s) = logs s"
  by (simp_all add: stampPost_def)

lemma AddPostToThreads_stamped:
  assumes "post < length (heap s)"
    and "avoidDuplicate (timestamps s) (CreateAt (heap s ! post)) = Some c"
  shows "AddPostToThreads original post channel iw s =
         threadPost original post iw (stampPost channel post c s)"
  using assms by (simp add: AddPostToThreads_def markDirect_fields)

text \<open>
  Claim C3. A message whose thread-root timestamp is non-empty and differs from its own
  timestamp, and for whose root timestamp the store has no root post, is dropped: the call
  returns, the store is unchanged, no post's replies change, and the failure is logged.
\<close>

theorem missing_root_reply_dropped:
  assumes p: "post < length (heap s)"
    and f: "timestamps s x = None"
    and r1: "ThreadTS original \<noteq> []"
    and r2: "ThreadTS original \<noteq> TimeStamp original"
    and absent: "\<not> HasThread (threads s) (redis s) (ThreadTS original)"
  shows "\<exists>s'. AddPostToThreads original post channel iw s = Inr s'
           \<and> threads s' = threads s \<and> redis s' = redis s
           \<and> logs s' = logs s @ [ErrRootPostNotFound original]
           \<and> length (heap s') = length (heap s)
           \<and> (\<forall>a<length (heap s). Replies (heap s' ! a) = Replies (heap s ! a))"
proof -
  have "\<exists>c. avoidDuplicate (timestamps s) (CreateAt (heap s ! post)) = Some c"
    using f by (rule avoidDuplicate_returns)
  then obtain c
    where c: "avoidDuplicate (timestamps s) (CreateAt (heap s ! post)) = Some c" by blast
  let ?s1 = "stampPost channel post c s"
  have l: "LookupThread (threads ?s1) (redis ?s1) (heap ?s1) (ThreadTS original)
             = (None, threads s, heap ?s1)"
    using absent by (simp add: stampPost_fields LookupThread_absent)
  have "AddPostToThreads original post channel iw s =
          Inr (?s1\<lparr>threads := threads s, heap := heap ?s1,
                   logs := logs ?s1 @ [ErrRootPostNotFound original]\<rparr>)"
    unfolding AddPostToThreads_stamped[OF p c] threadPost_def using r1 r2 l by simp
  moreover have "\<forall>a<length (heap s). Replies (heap ?s1 ! a) = Replies (heap s ! a)"
    using p by (auto simp: stampPost_fields nth_list_update markDirect_fields)
  ultimately show ?thesis
    by (simp add: stampPost_fields)
qed

theorem missing_root_reply_dropped_witness:
  "(0::nat) < length (heap (ex_state newMemoryStorage))
   \<and> timestamps (ex_state newMemoryStorage) 11 = None
   \<and> ThreadTS (ex_message ''15'' ''10'') \<noteq> []
   \<and> ThreadTS (ex_message ''15'' ''10'') \<noteq> TimeStamp (ex_message ''15'' ''10'')
   \<and> \<not> HasThread (threads (ex_state newMemoryStorage)) (redis (ex_state newMemoryStorage))
          (ThreadTS (ex_message ''15'' ''10''))
   \<and> (\<exists>s'. AddPostToThreads (ex_message ''15'' ''10'') 0 ex_channel False
              (ex_state newMemoryStorage) = Inr s'
          \<and> threads s' = threads (ex_state newMemoryStorage)
          \<and> redis s' = redis (ex_state newMemoryStorage)
          \<and> logs s' = logs (ex_state newMemoryStorage)
                @ [ErrRootPostNotFound (ex_message ''15'' ''10'')]
          \<and> length (heap s') = length (heap (ex_state newMemoryStorage))
          \<and> (\<forall>a<length (heap (ex_state newMemoryStorage)).
                Replies (heap s' ! a) = Replies (heap (ex_state newMemoryStorage) ! a)))"
  using missing_root_reply_dropped[of 0 "ex_state newMemoryStorage" 11 "ex_message ''15'' ''10''"
      ex_channel False]
  by (simp add: ex_state_def ex_message_def newMemoryStorage_def)

lemma storeRoot_fields:
  "threads (storeRoot ts post s) = StoreThread (threads s) ts post"
  "logs (storeRoot ts post s) =
     logs s @ (if HasThread (threads s) (redis s) ts then [WarnOverwritingRoot ts] else [])"
  "heap (storeRoot ts post s) = heap s"
  "redis (storeRoot ts post s) = redis s"
  "timestamps (storeRoot ts post s) = timestamps s"
  by (simp_all add: storeRoot_def Let_def)

lemma HasThread_cached: "map_of (cache t) ts = Some a \<Longrightarrow> HasThread t b ts"
  by (cases t) auto

lemma threadPost_root:
  assumes "ThreadTS original = [] \<or> ThreadTS original = TimeStamp original"
  shows "threadPost original post iw s1 =
         Inr (storeRoot (TimeStamp original) post
               (s1\<lparr>heap := (heap s1)[post := Sanitise_post (heap s1 ! post)]\<rparr>))"
  using assms by (auto simp: threadPost_def Let_def)

text \<open>
  Claim C4. A message whose thread-root timestamp is empty or equal to its own timestamp
  is a root: the call returns with the post stored under the message's own timestamp and
  every other entry of the store as before; when the store already had a post for that
  identifier a warning is logged and the entry is replaced, the new root keeping its own
  replies.
\<close>

theorem root_stored_under_own_timestamp:
  assumes p: "post < length (heap s)"
    and f: "timestamps s x = None"
    and root: "ThreadTS original = [] \<or> ThreadTS original = TimeStamp original"
  shows "\<exists>s'. AddPostToThreads original post channel iw s = Inr s'
           \<and> map_of (cache (threads s')) = (map_of (cache (threads s)))(TimeStamp original \<mapsto> post)
           \<and> HasThread (threads s') (redis s') (TimeStamp original)
           \<and> LookupThread (threads s') (redis s') (heap s') (TimeStamp original)
               = (Some post, threads s', heap s')
           \<and> logs s' = logs s @
                (if HasThread (threads s) (redis s) (TimeStamp original)
                 then [WarnOverwritingRoot (TimeStamp original)] else [])
           \<and> Replies (heap s' ! post) = Replies (heap s ! post)"
proof -
  have "\<exists>c. avoidDuplicate (timestamps s) (CreateAt (heap s ! post)) = Some c"
    using f by (rule avoidDuplicate_returns)
  then obtain c
    where c: "avoidDuplicate (timestamps s) (CreateAt (heap s ! post)) = Some c" by blast
  let ?s1 = "stampPost channel post c s"
  let ?s2 = "?s1\<lparr>heap := (heap ?s1)[post := Sanitise_post (heap ?s1 ! post)]\<rparr>"
  let ?s' = "storeRoot (TimeStamp original) post ?s2"
  have r: "AddPostToThreads original post channel iw s = Inr ?s'"
    unfolding AddPostToThreads_stamped[OF p c] using root by (rule threadPost_root)
  have m: "map_of (cache (threads ?s')) = (map_of (cache (threads s)))(TimeStamp original \<mapsto> post)"
    by (simp add: storeRoot_fields stampPost_fields map_of_StoreThread)
  then have m1: "map_of (cache (threads ?s')) (TimeStamp original) = Some post" by simp
  have h: "HasThread (threads ?s') (redis ?s') (TimeStamp original)"
    using m1 by (rule HasThread_cached)
  have l: "LookupThread (threads ?s') (redis ?s') (heap ?s') (TimeStamp original)
             = (Some post, threads ?s', heap ?s')"
    using m1 by (rule LookupThread_cached)
  have g: "logs ?s' = logs s @
                (if HasThread (threads s) (redis s) (TimeStamp original)
                 then [WarnOverwritingRoot (TimeStamp original)] else [])"
    by (simp add: storeRoot_fields stampPost_fields)
  have e: "Replies (heap ?s' ! post) = Replies (heap s ! post)"
    using p by (simp add: storeRoot_fields stampPost_fields Sanitise_post_fields markDirect_fields)
  from r m h l g e show ?thesis by blast
qed

theorem root_stored_under_own_timestamp_witness:
  "(0::nat) < length (heap (ex_state (MemoryStorage [(''10'', 1)])))
   \<and> timestamps (ex_state (MemoryStorage [(''10'', 1)])) 11 = None
   \<and> (ThreadTS (ex_message ''10'' ''10'') = []
        \<or> ThreadTS (ex_message ''10'' ''10'') = TimeStamp (ex_message ''10'' ''10''))
   \<and> (\<exists>s'. AddPostToThreads (ex_message ''10'' ''10'') 0 ex_channel False
               (ex_state (MemoryStorage [(''10'', 1)])) = Inr s'
           \<and> map_of (cache (threads s'))
               = (map_of (cache (threads (ex_state (MemoryStorage [(''10'', 1)])))))
                   (TimeStamp (ex_message ''10'' ''10'') \<mapsto> 0)
           \<and> HasThread (threads s') (redis s') (TimeStamp (ex_message ''10'' ''10''))
           \<and> LookupThread (threads s') (redis s') (heap s') (TimeStamp (ex_message ''10'' ''10''))
               = (Some 0, threads s', heap s')
           \<and> logs s' = logs (ex_state (MemoryStorage [(''10'', 1)])) @
                (if HasThread (threads (ex_state (MemoryStorage [(''10'', 1)])))
                      (redis (ex_state (MemoryStorage [(''10'', 1)])))
                      (TimeStamp (ex_message ''10'' ''10''))
                 then [WarnOverwritingRoot (TimeStamp (ex_message ''10'' ''10''))] else [])
           \<and> Replies (heap s' ! 0) = Replies (heap (ex_state (MemoryStorage [(''10'', 1)])) ! 0))"
  using root_stored_under_own_timestamp[of 0 "ex_state (MemoryStorage [(''10'', 1)])" 11
      "ex_message ''10'' ''10''" ex_channel False]
  by (simp add: ex_state_def ex_message_def)

lemma decode_list_update:
  "decode d h = (a, h') \<Longrightarrow> i < length h \<Longrightarrow> decode d (h[i := v]) = (a, h'[i := v])"
  "decode_list ds h = (as, h'') \<Longrightarrow> i < length h \<Longrightarrow>
     decode_list ds (h[i := v]) = (as, h''[i := v])"
proof (induction d h and ds h arbitrary: a h' and as h'' rule: decode_decode_list.induct)
  case (1 p rs h)
  obtain as1 h1 where d: "decode_list rs h = (as1, h1)" by (cases "decode_list rs h")
  from decode_extends(2)[OF d] 1(3) have i: "i < length h1" by auto
  from 1(1)[OF d 1(3)] have u: "decode_list rs (h[i := v]) = (as1, h1[i := v])" .
  from 1(2) d have "a = length h1" "h' = h1 @ [p\<lparr>Replies := as1\<rparr>]" by auto
  with u i show ?case by (simp add: list_update_append1)
next
  case (2 h)
  then show ?case by simp
next
  case (3 d ds h)
  obtain a1 h1 where d1: "decode d h = (a1, h1)" by (cases "decode d h")
  obtain as2 h2 where d2: "decode_list ds h1 = (as2, h2)" by (cases "decode_list ds h1")
  from decode_extends(1)[OF d1] 3(4) have i: "i < length h1" by auto
  from 3(1)[OF d1 3(4)] have u1: "decode d (h[i := v]) = (a1, h1[i := v])" .
  from 3(2)[OF d1[symmetric] d2 i] have u2: "decode_list ds (h1[i := v]) = (as2, h2[i := v])" .
  from 3(3) d1 d2 have "as = a1 # as2" "h'' = h2" by auto
  with u1 u2 show ?case by simp
qed

lemma LookupThread_list_update:
  assumes l: "LookupThread t b h ts = (r, t', h')" and i: "i < length h"
  shows "LookupThread t b (h[i := v]) ts = (r, t', h'[i := v])"
proof (cases "map_of (cache t) ts")
  case (Some a)
  from LookupThread_cached[OF Some, of b h] l have "r = Some a" "t' = t" "h' = h" by simp_all
  with LookupThread_cached[OF Some, of b "h[i := v]"] show ?thesis by simp
next
  case None
  show ?thesis
  proof (cases "HasThread t b ts")
    case False
    from LookupThread_absent[OF False, of h] l have "r = None" "t' = t" "h' = h" by simp_all
    with LookupThread_absent[OF False, of "h[i := v]"] show ?thesis by simp
  next
    case True
    with None obtain ch m d where t: "t = RedisStorage ch m" and m: "map_of m ts = None"
      and d: "b (redisKey ch ts) = Some d"
      by (cases t) auto
    obtain a h1 where dd: "decode d h = (a, h1)" by (cases "decode d h")
    have u: "decode d (h[i := v]) = (a, h1[i := v])"
      using dd i by (rule decode_list_update(1))
    have "LookupThread t b h ts = (Some a, RedisStorage ch (AList.update ts a m), h1)"
      unfolding t using m d dd by simp
    with l have e: "r = Some a" "t' = RedisStorage ch (AList.update ts a m)" "h' = h1"
      by simp_all
    have "LookupThread t b (h[i := v]) ts
            = (Some a, RedisStorage ch (AList.update ts a m), h1[i := v])"
      unfolding t using m d u by simp
    with e show ?thesis by simp
  qed
qed

lemma appendReply_fields:
  "length (appendReply root post h) = length h"
  "root < length h \<Longrightarrow> a < length h \<Longrightarrow> CreateAt (appendReply root post h ! a) = CreateAt (h ! a)"
  "root < length h \<Longrightarrow> a < length h \<Longrightarrow> User (appendReply root post h ! a) = User (h ! a)"
  by (auto simp: appendReply_def nth_list_update)

lemma threadPost_returns:
  assumes p: "post < length (heap s1)" and wf: "wf_store (threads s1) (heap s1)"
  shows "\<exists>s'. threadPost original post iw s1 = Inr s'
           \<and> timestamps s' = timestamps s1
           \<and> length (heap s1) \<le> length (heap s')
           \<and> (\<forall>a<length (heap s1). CreateAt (heap s' ! a) = CreateAt (heap s1 ! a))
           \<and> wf_store (threads s') (heap s')"
proof (cases "ThreadTS original \<noteq> [] \<and> ThreadTS original \<noteq> TimeStamp original")
  case False
  then have root: "ThreadTS original = [] \<or> ThreadTS original = TimeStamp original" by blast
  let ?s2 = "s1\<lparr>heap := (heap s1)[post := Sanitise_post (heap s1 ! post)]\<rparr>"
  let ?s' = "storeRoot (TimeStamp original) post ?s2"
  have r: "threadPost original post iw s1 = Inr ?s'" using root by (rule threadPost_root)
  have "wf_store (threads s1) (heap ?s2)" using wf by (simp add: wf_store_iff)
  then have w: "wf_store (threads ?s') (heap ?s')"
    using p by (simp add: storeRoot_fields wf_store_StoreThread)
  have c: "\<forall>a<length (heap s1). CreateAt (heap ?s' ! a) = CreateAt (heap s1 ! a)"
    using p by (auto simp: storeRoot_fields nth_list_update Sanitise_post_fields)
  from r w c show ?thesis by (simp add: storeRoot_fields)
next
  case True
  obtain r t2 h2
    where l: "LookupThread (threads s1) (redis s1) (heap s1) (ThreadTS original) = (r, t2, h2)"
    by (cases "LookupThread (threads s1) (redis s1) (heap s1) (ThreadTS original)")
  from LookupThread_extends[OF l] obtain ext where e: "h2 = heap s1 @ ext" by blast
  from LookupThread_wf[OF wf l]
  have w2: "wf_store t2 h2" and rv: "\<forall>a. r = Some a \<longrightarrow> a < length h2" by simp_all
  have n: "\<forall>a<length (heap s1). h2 ! a = heap s1 ! a" using e by (simp add: nth_append)
  show ?thesis
  proof (cases r)
    case None
    with True l have "threadPost original post iw s1 =
        Inr (s1\<lparr>threads := t2, heap := h2, logs := logs s1 @ [ErrRootPostNotFound original]\<rparr>)"
      by (simp add: threadPost_def)
    with w2 e n show ?thesis by simp
  next
    case (Some root)
    with rv have rl: "root < length h2" by simp
    show ?thesis
    proof (cases "\<not> iw \<and> User (h2 ! root) = WorkflowUserName")
      case t: True
      with True l Some rl have "threadPost original post iw s1 =
          Inr (s1\<lparr>threads := t2, heap := h2\<rparr>)"
        by (simp add: threadPost_def)
      with w2 e n show ?thesis by simp
    next
      case f: False
      with True l Some rl have "threadPost original post iw s1 =
          Inr (s1\<lparr>threads := t2, heap := appendReply root post h2\<rparr>)"
        by (auto simp: threadPost_def)
      moreover have "wf_store t2 (appendReply root post h2)"
        using w2 by (simp add: wf_store_iff appendReply_fields)
      moreover have "\<forall>a<length (heap s1). CreateAt (appendReply root post h2 ! a) = CreateAt (heap s1 ! a)"
        using rl e n by (simp add: appendReply_fields)
      ultimately show ?thesis using e by (simp add: appendReply_fields)
    qed
  qed
qed

lemma AddPostToThreads_returns:
  assumes p: "post < length (heap s)" and f: "timestamps s x = None"
    and wf: "wf_store (threads s) (heap s)"
  shows "\<exists>s' c. AddPostToThreads original post channel iw s = Inr s'
           \<and> avoidDuplicate (timestamps s) (CreateAt (heap s ! post)) = Some c
           \<and> timestamps s' = (timestamps s)(c \<mapsto> True)
           \<and> length (heap s) \<le> length (heap s')
           \<and> (\<forall>a<length (heap s).
                 CreateAt (heap s' ! a) = (if a = post then c else CreateAt (heap s ! a)))
           \<and> wf_store (threads s') (heap s')"
proof -
  have "\<exists>c. avoidDuplicate (timestamps s) (CreateAt (heap s ! post)) = Some c"
    using f by (rule avoidDuplicate_returns)
  then obtain c
    where c: "avoidDuplicate (timestamps s) (CreateAt (heap s ! post)) = Some c" by blast
  let ?s1 = "stampPost channel post c s"
  have p1: "post < length (heap ?s1)" using p by (simp add: stampPost_fields)
  have w1: "wf_store (threads ?s1) (heap ?s1)"
    using wf by (simp add: stampPost_fields wf_store_iff)
  from threadPost_returns[OF p1 w1, of original iw] obtain s'
    where r: "threadPost original post iw ?s1 = Inr s'"
      and t: "timestamps s' = timestamps ?s1"
      and len: "length (heap ?s1) \<le> length (heap s')"
      and ca: "\<forall>a<length (heap ?s1). CreateAt (heap s' ! a) = CreateAt (heap ?s1 ! a)"
      and w: "wf_store (threads s') (heap s')" by blast
  have "\<forall>a<length (heap s).
          CreateAt (heap s' ! a) = (if a = post then c else CreateAt (heap s ! a))"
    using ca p by (auto simp: stampPost_fields nth_list_update markDirect_fields)
  with r t len w c show ?thesis
    unfolding AddPostToThreads_stamped[OF p c] by (simp add: stampPost_fields)
qed

text \<open>
  Claim C9. A reply whose root exists in the store and was written by the workflow user
  is dropped when workflow messages are not imported: nothing is logged, no post's replies
  change, and yet the reply's resolved creation time has been recorded in the ledger.
\<close>

theorem workflow_reply_dropped_silently:
  assumes p: "post < length (heap s)"
    and f: "timestamps s x = None"
    and wf: "wf_store (threads s) (heap s)"
    and r1: "ThreadTS original \<noteq> []"
    and r2: "ThreadTS original \<noteq> TimeStamp original"
    and niw: "\<not> iw"
    and l: "LookupThread (threads s) (redis s) (heap s) (ThreadTS original) = (Some root, t2, h2)"
    and wu: "User (h2 ! root) = WorkflowUserName"
  shows "\<exists>s' c. AddPostToThreads original post channel iw s = Inr s'
           \<and> logs s' = logs s \<and> threads s' = t2
           \<and> length (heap s') = length h2
           \<and> (\<forall>a<length h2. Replies (heap s' ! a) = Replies (h2 ! a))
           \<and> timestamps s c = None
           \<and> timestamps s' = (timestamps s)(c \<mapsto> True)
           \<and> CreateAt (heap s' ! post) = c"
proof -
  have "\<exists>c. avoidDuplicate (timestamps s) (CreateAt (heap s ! post)) = Some c"
    using f by (rule avoidDuplicate_returns)
  then obtain c
    where c: "avoidDuplicate (timestamps s) (CreateAt (heap s ! post)) = Some c" by blast
  have free: "timestamps s c = None" using c by (rule avoidDuplicate_free)
  let ?v = "(markDirect channel (heap s ! post))\<lparr>CreateAt := c\<rparr>"
  let ?s1 = "stampPost channel post c s"
  from LookupThread_extends[OF l] obtain ext where e: "h2 = heap s @ ext" by blast
  from LookupThread_wf[OF wf l] have rl: "root < length h2" by simp
  have p2: "post < length h2" using p e by simp
  have hp: "h2 ! post = heap s ! post" using p e by (simp add: nth_append)
  have l1: "LookupThread (threads ?s1) (redis ?s1) (heap ?s1) (ThreadTS original)
              = (Some root, t2, h2[post := ?v])"
    using LookupThread_list_update[OF l p, of ?v] by (simp add: stampPost_fields)
  have u: "User (h2[post := ?v] ! root) = WorkflowUserName"
    using wu p2 rl hp by (cases "root = post") (simp_all add: markDirect_fields)
  have res: "AddPostToThreads original post channel iw s
               = Inr (?s1\<lparr>threads := t2, heap := h2[post := ?v]\<rparr>)"
    unfolding AddPostToThreads_stamped[OF p c] threadPost_def
    using r1 r2 l1 rl niw u by simp
  have rep: "\<forall>a<length h2. Replies (h2[post := ?v] ! a) = Replies (h2 ! a)"
    using p2 hp by (auto simp: nth_list_update markDirect_fields)
  have cr: "CreateAt (h2[post := ?v] ! post) = c" using p2 by simp
  from res rep cr free show ?thesis by (simp add: stampPost_fields)
qed

text \<open>
  Claim C1, as amended. For every message the creation time left on the post is the value
  at which the timestamp loop stopped, which was absent from the ledger and is now
  recorded in it. A root post is stored under the message's own original timestamp string,
  which the loop does not change; the store gets no other new key.
\<close>

theorem created_at_resolved_key_original:
  assumes p: "post < length (heap s)"
    and f: "timestamps s x = None"
    and wf: "wf_store (threads s) (heap s)"
  shows "\<exists>s' c. AddPostToThreads original post channel iw s = Inr s'
           \<and> avoidDuplicate (timestamps s) (CreateAt (heap s ! post)) = Some c
           \<and> timestamps s c = None
           \<and> CreateAt (heap s' ! post) = c
           \<and> timestamps s' c = Some True
           \<and> (ThreadTS original = [] \<or> ThreadTS original = TimeStamp original \<longrightarrow>
                 map_of (cache (threads s')) (TimeStamp original) = Some post
               \<and> fst ` set (cache (threads s'))
                   = insert (TimeStamp original) (fst ` set (cache (threads s))))"
proof -
  from AddPostToThreads_returns[OF p f wf, of original channel iw] obtain s' c
    where r: "AddPostToThreads original post channel iw s = Inr s'"
      and c: "avoidDuplicate (timestamps s) (CreateAt (heap s ! post)) = Some c"
      and t: "timestamps s' = (timestamps s)(c \<mapsto> True)"
      and ca: "\<forall>a<length (heap s).
                 CreateAt (heap s' ! a) = (if a = post then c else CreateAt (heap s ! a))"
    by blast
  have free: "timestamps s c = None" using c by (rule avoidDuplicate_free)
  have cp: "CreateAt (heap s' ! post) = c" using ca p by simp
  have key: "map_of (cache (threads s')) (TimeStamp original) = Some post
               \<and> fst ` set (cache (threads s'))
                   = insert (TimeStamp original) (fst ` set (cache (threads s)))"
    if root: "ThreadTS original = [] \<or> ThreadTS original = TimeStamp original"
  proof -
    let ?s1 = "stampPost channel post c s"
    let ?s2 = "?s1\<lparr>heap := (heap ?s1)[post := Sanitise_post (heap ?s1 ! post)]\<rparr>"
    have "AddPostToThreads original post channel iw s
            = Inr (storeRoot (TimeStamp original) post ?s2)"
      unfolding AddPostToThreads_stamped[OF p c] using root by (rule threadPost_root)
    with r have s': "s' = storeRoot (TimeStamp original) post ?s2" by simp
    have th: "cache (threads s') = AList.update (TimeStamp original) post (cache (threads s))"
      by (simp add: s' storeRoot_fields stampPost_fields cache_StoreThread)
    show ?thesis by (simp add: th update_conv' dom_update)
  qed
  from r c free cp t key show ?thesis by auto
qed

section \<open>Order of the resolved creation times\<close>

lemma sint_range64:
  fixes c :: "64 word"
  shows "- 9223372036854775808 \<le> sint c" "sint c < 9223372036854775808"
proof -
  have "- (2 ^ (LENGTH(64) - 1)) \<le> sint c" by (rule sint_ge)
  then show "- 9223372036854775808 \<le> sint c" by simp
  have "sint c < 2 ^ (LENGTH(64) - 1)" by (rule sint_lt)
  then show "sint c < 9223372036854775808" by simp
qed

lemma uint_range64:
  fixes c :: "64 word"
  shows "0 \<le> uint c" "uint c < 18446744073709551616"
proof -
  show "0 \<le> uint c" by simp
  have "uint c < 2 ^ LENGTH(64)" by (rule uint_lt2p)
  then show "uint c < 18446744073709551616" by simp
qed


lemma sint_as_offset:
  fixes x c0 :: "64 word"
  shows "sint x = (sint c0 + uint (x - c0) + 9223372036854775808) mod 18446744073709551616
                    - 9223372036854775808"
proof -
  have "word_of_int (sint c0 + uint (x - c0)) = (word_of_int (sint c0) :: 64 word) + word_of_int (uint (x - c0))"
    by (rule wi_hom_add[symmetric])
  also have "\<dots> = c0 + (x - c0)" by simp
  also have "\<dots> = x" by simp
  finally have "x = word_of_int (sint c0 + uint (x - c0))" by simp
  then have "sint x = sint (word_of_int (sint c0 + uint (x - c0)) :: 64 word)" by simp
  also have "\<dots> = signed_take_bit (LENGTH(64) - 1) (sint c0 + uint (x - c0))"
    by (rule sint_sbintrunc')
  also have "\<dots> = (sint c0 + uint (x - c0) + 9223372036854775808) mod 18446744073709551616
                    - 9223372036854775808"
    by (simp add: signed_take_bit_eq_take_bit_shift take_bit_eq_mod)
  finally show ?thesis .
qed


lemma mod_once:
  fixes z :: int
  assumes "18446744073709551616 \<le> z" "z < 36893488147419103232"
  shows "z mod 18446744073709551616 = z - 18446744073709551616"
proof -
  have "(z - 18446744073709551616) mod 18446744073709551616 = z - 18446744073709551616"
    using assms by (intro mod_pos_pos_trivial) linarith+
  moreover have "(z - 18446744073709551616) mod 18446744073709551616 = z mod 18446744073709551616"
    by (rule minus_mod_self2)
  ultimately show ?thesis by (simp only:)
qed

lemma signed_order:
  fixes c0 c1 c2 :: "64 word"
  assumes d: "unat (c1 - c0) < unat (c2 - c0)" and le: "c0 \<le>s c2"
  shows "c1 <s c2"
proof -
  define A where "A = sint c0"
  define D1 where "D1 = uint (c1 - c0)"
  define D2 where "D2 = uint (c2 - c0)"
  have A: "- 9223372036854775808 \<le> A" "A < 9223372036854775808"
    unfolding A_def by (rule sint_range64)+
  have D1: "0 \<le> D1" unfolding D1_def by simp
  have D2: "D2 < 18446744073709551616" unfolding D2_def by (rule uint_range64)
  have "c1 - c0 < c2 - c0" using d by (simp only: word_less_nat_alt)
  then have D12: "D1 < D2" unfolding D1_def D2_def by (simp only: word_less_alt)
  have s2: "sint c2 = (A + D2 + 9223372036854775808) mod 18446744073709551616 - 9223372036854775808"
    unfolding A_def D2_def by (rule sint_as_offset)
  have s1: "sint c1 = (A + D1 + 9223372036854775808) mod 18446744073709551616 - 9223372036854775808"
    unfolding A_def D1_def by (rule sint_as_offset)
  have le': "A \<le> sint c2" using le unfolding A_def by (simp only: word_sle_eq)
  have n2: "A + D2 + 9223372036854775808 < 18446744073709551616"
  proof (rule ccontr)
    assume "\<not> A + D2 + 9223372036854775808 < 18446744073709551616"
    then have ge: "18446744073709551616 \<le> A + D2 + 9223372036854775808" by linarith
    have "A + D2 + 9223372036854775808 < 36893488147419103232" using A D2 by linarith
    with ge have "(A + D2 + 9223372036854775808) mod 18446744073709551616
                    = A + D2 + 9223372036854775808 - 18446744073709551616"
      by (rule mod_once)
    with s2 have "sint c2 = A + D2 - 18446744073709551616" by linarith
    with le' D2 show False by linarith
  qed
  have p2: "0 \<le> A + D2 + 9223372036854775808" using A D1 D12 by linarith
  have "(A + D2 + 9223372036854775808) mod 18446744073709551616 = A + D2 + 9223372036854775808"
    using p2 n2 by (rule mod_pos_pos_trivial)
  with s2 have e2: "sint c2 = A + D2" by linarith
  have p1: "0 \<le> A + D1 + 9223372036854775808" using A D1 by linarith
  have n1: "A + D1 + 9223372036854775808 < 18446744073709551616" using n2 D12 by linarith
  have "(A + D1 + 9223372036854775808) mod 18446744073709551616 = A + D1 + 9223372036854775808"
    using p1 n1 by (rule mod_pos_pos_trivial)
  with s1 have e1: "sint c1 = A + D1" by linarith
  have "sint c1 < sint c2" using e1 e2 D12 by linarith
  then show ?thesis by (simp only: word_sless_alt)
qed

lemma distance_inj:
  fixes a b c0 :: int64
  assumes "unat (a - c0) = unat (b - c0)"
  shows "a = b"
proof -
  from assms have "a - c0 = b - c0" by (simp only: word_unat_eq_iff)
  then show ?thesis by simp
qed

lemma ledger_has_room:
  fixes ts :: "int64 \<rightharpoonup> bool"
  assumes "card (dom ts) < 18446744073709551616"
  shows "\<exists>x. ts x = None"
proof (rule ccontr)
  assume "\<not> (\<exists>x. ts x = None)"
  then have "dom ts = UNIV" by auto
  then have "card (dom ts) = CARD(int64)" by simp
  also have "\<dots> = 2 ^ LENGTH(64)" by (rule card_word)
  finally show False using assms by simp
qed

lemma card_dom_upd:
  fixes ts :: "int64 \<rightharpoonup> bool"
  assumes "ts c = None"
  shows "card (dom (ts(c \<mapsto> v))) = Suc (card (dom ts))"
proof -
  have "c \<notin> dom ts" using assms by auto
  moreover have "finite (dom ts)" by simp
  ultimately show ?thesis by simp
qed


lemma AddPostsToThreads_run:
  assumes "\<forall>m\<in>set ms. snd m < length (heap s)"
    and "distinct (map snd ms)"
    and "wf_store (threads s) (heap s)"
    and "card (dom (timestamps s)) + length ms < 18446744073709551616"
  shows "\<exists>s'. AddPostsToThreads ms channel iw s = Inr s'
           \<and> length (heap s) \<le> length (heap s')
           \<and> (\<forall>a<length (heap s). a \<notin> snd ` set ms \<longrightarrow>
                 CreateAt (heap s' ! a) = CreateAt (heap s ! a))
           \<and> timestamps s' =
               (\<lambda>c. if c \<in> set (createAts ms s') then Some True else timestamps s c)
           \<and> distinct (createAts ms s')
           \<and> (\<forall>c\<in>set (createAts ms s'). timestamps s c = None)
           \<and> (\<forall>j<length ms. \<forall>z.
                 unat (z - createAts ms s ! j) < unat (createAts ms s' ! j - createAts ms s ! j)
                 \<longrightarrow> z \<in> dom (timestamps s) \<union> set (take j (createAts ms s')))"
  using assms
proof (induction ms arbitrary: s)
  case Nil
  then show ?case by (simp add: createAts_def)
next
  case (Cons m ms)
  let ?p = "snd m"
  let ?c0 = "CreateAt (heap s ! ?p)"
  have p: "?p < length (heap s)" using Cons.prems(1) by simp
  have pn: "?p \<notin> snd ` set ms" and dms: "distinct (map snd ms)" using Cons.prems(2) by auto
  have "card (dom (timestamps s)) < 18446744073709551616" using Cons.prems(4) by simp
  then obtain x where fx: "timestamps s x = None" using ledger_has_room by blast
  from AddPostToThreads_returns[OF p fx Cons.prems(3), of "fst m" channel iw] obtain s1 c
    where r1: "AddPostToThreads (fst m) ?p channel iw s = Inr s1"
      and a1: "avoidDuplicate (timestamps s) ?c0 = Some c"
      and t1: "timestamps s1 = (timestamps s)(c \<mapsto> True)"
      and len1: "length (heap s) \<le> length (heap s1)"
      and ca1: "\<forall>a<length (heap s).
                 CreateAt (heap s1 ! a) = (if a = ?p then c else CreateAt (heap s ! a))"
      and wf1: "wf_store (threads s1) (heap s1)"
    by blast
  have free: "timestamps s c = None" using a1 by (rule avoidDuplicate_free)
  have posts1: "\<forall>m\<in>set ms. snd m < length (heap s1)" using Cons.prems(1) len1 by auto
  have "card (dom (timestamps s1)) = Suc (card (dom (timestamps s)))"
    unfolding t1 using free by (rule card_dom_upd)
  then have room1: "card (dom (timestamps s1)) + length ms < 18446744073709551616"
    using Cons.prems(4) by simp
  from Cons.IH[OF posts1 dms wf1 room1] obtain s'
    where r: "AddPostsToThreads ms channel iw s1 = Inr s'"
      and len: "length (heap s1) \<le> length (heap s')"
      and fr: "\<forall>a<length (heap s1). a \<notin> snd ` set ms \<longrightarrow>
                 CreateAt (heap s' ! a) = CreateAt (heap s1 ! a)"
      and ts': "timestamps s' =
               (\<lambda>c. if c \<in> set (createAts ms s') then Some True else timestamps s1 c)"
      and di: "distinct (createAts ms s')"
      and fr1: "\<forall>c\<in>set (createAts ms s'). timestamps s1 c = None"
      and mi: "\<forall>j<length ms. \<forall>z.
                 unat (z - createAts ms s1 ! j) < unat (createAts ms s' ! j - createAts ms s1 ! j)
                 \<longrightarrow> z \<in> dom (timestamps s1) \<union> set (take j (createAts ms s'))"
    by blast
  have R: "AddPostsToThreads (m # ms) channel iw s = Inr s'" using r1 r by simp
  have cp: "CreateAt (heap s' ! ?p) = c"
  proof -
    have "?p < length (heap s1)" using p len1 by simp
    with fr pn have "CreateAt (heap s' ! ?p) = CreateAt (heap s1 ! ?p)" by blast
    also have "\<dots> = c" using ca1 p by simp
    finally show ?thesis .
  qed
  have res: "createAts (m # ms) s' = c # createAts ms s'" using cp by (simp add: createAts_def)
  have inc1: "createAts ms s1 = createAts ms s"
    unfolding createAts_def
  proof (rule map_cong[OF refl])
    fix k assume k: "k \<in> set ms"
    then have "snd k < length (heap s)" using Cons.prems(1) by simp
    moreover have "snd k \<in> snd ` set ms" using k by (rule imageI)
    then have "snd k \<noteq> ?p" using pn by metis
    ultimately show "CreateAt (heap s1 ! snd k) = CreateAt (heap s ! snd k)" using ca1 by simp
  qed
  have inc: "createAts (m # ms) s = ?c0 # createAts ms s" by (simp add: createAts_def)
  have L: "length (heap s) \<le> length (heap s')" using len1 len by simp
  have F: "\<forall>a<length (heap s). a \<notin> snd ` set (m # ms) \<longrightarrow>
             CreateAt (heap s' ! a) = CreateAt (heap s ! a)"
  proof (intro allI impI)
    fix a assume a: "a < length (heap s)" and n: "a \<notin> snd ` set (m # ms)"
    from n have ne: "a \<noteq> ?p" and nm: "a \<notin> snd ` set ms" by auto
    from a len1 have "a < length (heap s1)" by simp
    with fr nm have "CreateAt (heap s' ! a) = CreateAt (heap s1 ! a)" by blast
    also have "\<dots> = CreateAt (heap s ! a)" using ca1 a ne by simp
    finally show "CreateAt (heap s' ! a) = CreateAt (heap s ! a)" .
  qed
  have T: "timestamps s' =
             (\<lambda>c. if c \<in> set (createAts (m # ms) s') then Some True else timestamps s c)"
    unfolding res ts' t1 by (rule ext) simp
  have cn: "c \<notin> set (createAts ms s')"
  proof
    assume "c \<in> set (createAts ms s')"
    with fr1 have "timestamps s1 c = None" by blast
    then show False unfolding t1 by simp
  qed
  have D: "distinct (createAts (m # ms) s')" unfolding res using cn di by simp
  have N: "\<forall>c\<in>set (createAts (m # ms) s'). timestamps s c = None"
  proof
    fix d assume "d \<in> set (createAts (m # ms) s')"
    then consider "d = c" | "d \<in> set (createAts ms s')" unfolding res by auto
    then show "timestamps s d = None"
    proof cases
      case 1
      then show ?thesis using free by simp
    next
      case 2
      with fr1 have "timestamps s1 d = None" by blast
      then show ?thesis unfolding t1 by (simp split: if_splits)
    qed
  qed
  have M: "\<forall>j<length (m # ms). \<forall>z.
             unat (z - createAts (m # ms) s ! j)
               < unat (createAts (m # ms) s' ! j - createAts (m # ms) s ! j)
             \<longrightarrow> z \<in> dom (timestamps s) \<union> set (take j (createAts (m # ms) s'))"
  proof (intro allI impI)
    fix j z
    assume j: "j < length (m # ms)"
      and z: "unat (z - createAts (m # ms) s ! j)
               < unat (createAts (m # ms) s' ! j - createAts (m # ms) s ! j)"
    show "z \<in> dom (timestamps s) \<union> set (take j (createAts (m # ms) s'))"
    proof (cases j)
      case 0
      with z have "unat (z - ?c0) < unat (c - ?c0)" unfolding res inc by simp
      with avoidDuplicate_least[OF a1] have "timestamps s z \<noteq> None" by blast
      then show ?thesis by auto
    next
      case (Suc k)
      with j have k: "k < length ms" by simp
      from z Suc have "unat (z - createAts ms s1 ! k)
                         < unat (createAts ms s' ! k - createAts ms s1 ! k)"
        unfolding res inc inc1 by simp
      with mi k have "z \<in> dom (timestamps s1) \<union> set (take k (createAts ms s'))" by blast
      then show ?thesis unfolding res Suc t1 by auto
    qed
  qed
  from R L F T D N M show ?case by blast
qed

lemma later_not_in_take:
  assumes "distinct xs" "i < j" "j < length xs"
  shows "xs ! j \<notin> set (take i xs)"
proof
  assume "xs ! j \<in> set (take i xs)"
  then obtain k where k: "k < length (take i xs)" and e: "take i xs ! k = xs ! j"
    by (auto simp: in_set_conv_nth)
  from k have ki: "k < i" and kl: "k < length xs" by simp_all
  from e ki have "xs ! k = xs ! j" by simp
  with assms(1) kl assms(3) have "k = j" by (simp add: nth_eq_iff_index_eq)
  with ki assms(2) show False by simp
qed

text \<open>
  Claim C2, as amended. The messages of one channel are passed to \<^verbatim>\<open>AddPostToThreads\<close>
  in order, each with its own post. Every call returns. Each creation time is advanced by
  the smallest number of unit increments, in wrapping \<^verbatim>\<open>int64\<close> arithmetic, that reaches
  a value absent from the ledger as it stands at that call, and the value is recorded in
  the ledger. The resolved creation times of the channel's messages are pairwise
  distinct, and distinct from everything the ledger held before. Of two messages with the
  same incoming creation time the earlier gets the smaller resolved time, provided the
  later one's increments did not wrap around, that is, its resolved time is not below its
  incoming time.
\<close>

theorem collisions_resolved_over_channel:
  assumes posts: "\<forall>m\<in>set ms. snd m < length (heap s)"
    and d: "distinct (map snd ms)"
    and wf: "wf_store (threads s) (heap s)"
    and room: "card (dom (timestamps s)) + length ms < 18446744073709551616"
  shows "\<exists>s'. AddPostsToThreads ms channel iw s = Inr s'
           \<and> distinct (createAts ms s')
           \<and> (\<forall>c\<in>set (createAts ms s'). timestamps s c = None \<and> timestamps s' c = Some True)
           \<and> (\<forall>j<length ms.
                 createAts ms s' ! j \<notin> dom (timestamps s) \<union> set (take j (createAts ms s'))
               \<and> (\<forall>z. unat (z - createAts ms s ! j)
                          < unat (createAts ms s' ! j - createAts ms s ! j)
                        \<longrightarrow> z \<in> dom (timestamps s) \<union> set (take j (createAts ms s'))))
           \<and> (\<forall>i j. i < j \<and> j < length ms
                    \<and> createAts ms s ! i = createAts ms s ! j
                    \<and> createAts ms s ! j \<le>s createAts ms s' ! j
                  \<longrightarrow> createAts ms s' ! i <s createAts ms s' ! j)"
proof -
  from AddPostsToThreads_run[OF posts d wf room, of channel iw] obtain s'
    where R: "AddPostsToThreads ms channel iw s = Inr s'"
      and T: "timestamps s' =
               (\<lambda>c. if c \<in> set (createAts ms s') then Some True else timestamps s c)"
      and D: "distinct (createAts ms s')"
      and N: "\<forall>c\<in>set (createAts ms s'). timestamps s c = None"
      and M: "\<forall>j<length ms. \<forall>z.
                 unat (z - createAts ms s ! j) < unat (createAts ms s' ! j - createAts ms s ! j)
                 \<longrightarrow> z \<in> dom (timestamps s) \<union> set (take j (createAts ms s'))"
    by blast
  let ?inc = "createAts ms s" and ?res = "createAts ms s'"
  have len: "length ?res = length ms" by (simp add: createAts_def)
  have rec: "\<forall>c\<in>set ?res. timestamps s c = None \<and> timestamps s' c = Some True"
    using N by (simp add: T)
  have absent: "?res ! j \<notin> dom (timestamps s) \<union> set (take j ?res)" if j: "j < length ms" for j
  proof -
    have "?res ! j \<in> set ?res" using j len by simp
    with N have "timestamps s (?res ! j) = None" by blast
    then have a: "?res ! j \<notin> dom (timestamps s)" by auto
    have "?res ! j \<notin> set (take j ?res)"
    proof
      assume "?res ! j \<in> set (take j ?res)"
      then obtain k where k: "k < length (take j ?res)" and e: "take j ?res ! k = ?res ! j"
        by (auto simp: in_set_conv_nth)
      from k have kj: "k < j" and kl: "k < length ?res" by simp_all
      from e kj have "?res ! k = ?res ! j" by simp
      with D kl j len have "k = j" by (simp add: nth_eq_iff_index_eq)
      with kj show False by simp
    qed
    with a show ?thesis by simp
  qed
  have order: "?res ! i <s ?res ! j"
    if ij: "i < j" and j: "j < length ms" and same: "?inc ! i = ?inc ! j"
      and nowrap: "?inc ! j \<le>s ?res ! j" for i j
  proof -
    let ?c0 = "?inc ! j"
    have i: "i < length ms" using ij j by simp
    have "?res ! j \<in> set ?res" using j len by simp
    with N have "timestamps s (?res ! j) = None" by blast
    then have a: "?res ! j \<notin> dom (timestamps s)" by auto
    have b: "?res ! j \<notin> set (take i ?res)"
      using D ij j len by (simp add: later_not_in_take)
    from M i have "\<forall>z. unat (z - ?inc ! i) < unat (?res ! i - ?inc ! i)
                     \<longrightarrow> z \<in> dom (timestamps s) \<union> set (take i ?res)" by blast
    with a b have n: "\<not> unat (?res ! j - ?c0) < unat (?res ! i - ?c0)"
      unfolding same by blast
    have "?res ! i \<noteq> ?res ! j" using D ij j len by (simp add: nth_eq_iff_index_eq)
    then have "unat (?res ! i - ?c0) \<noteq> unat (?res ! j - ?c0)" using distance_inj by blast
    with n have "unat (?res ! i - ?c0) < unat (?res ! j - ?c0)" by simp
    then show ?thesis using nowrap by (rule signed_order)
  qed
  from R D rec absent M order show ?thesis by blast
qed

section \<open>Thread assembly on the example inputs\<close>

theorem workflow_reply_dropped_silently_witness:
  "(0::nat) < length (heap ex_workflow_state)
   \<and> timestamps ex_workflow_state 11 = None
   \<and> wf_store (threads ex_workflow_state) (heap ex_workflow_state)
   \<and> ThreadTS (ex_message ''15'' ''10'') \<noteq> []
   \<and> ThreadTS (ex_message ''15'' ''10'') \<noteq> TimeStamp (ex_message ''15'' ''10'')
   \<and> LookupThread (threads ex_workflow_state) (redis ex_workflow_state)
         (heap ex_workflow_state) (ThreadTS (ex_message ''15'' ''10''))
        = (Some 1, threads ex_workflow_state, heap ex_workflow_state)
   \<and> User (heap ex_workflow_state ! 1) = WorkflowUserName
   \<and> (\<exists>s' c. AddPostToThreads (ex_message ''15'' ''10'') 0 ex_channel False ex_workflow_state
                 = Inr s'
           \<and> logs s' = logs ex_workflow_state \<and> threads s' = threads ex_workflow_state
           \<and> length (heap s') = length (heap ex_workflow_state)
           \<and> (\<forall>a<length (heap ex_workflow_state).
                 Replies (heap s' ! a) = Replies (heap ex_workflow_state ! a))
           \<and> timestamps ex_workflow_state c = None
           \<and> timestamps s' = (timestamps ex_workflow_state)(c \<mapsto> True)
           \<and> CreateAt (heap s' ! 0) = c)"
  using workflow_reply_dropped_silently[where post = 0 and s = ex_workflow_state and x = 11
      and original = "ex_message ''15'' ''10''" and iw = False and root = 1
      and ?t2.0 = "threads ex_workflow_state" and ?h2.0 = "heap ex_workflow_state"
      and channel = ex_channel]
  by (simp add: ex_workflow_state_def ex_state_of_def ex_message_def ex_post_def wf_store_def)


text \<open>
  Against claim C1 as stated: the ledger holds 10, a root message with timestamp \<open>''10''\<close>
  comes with creation time 10; the post leaves with creation time 11 and is stored under
  the key \<open>''10''\<close>, the message's original timestamp.
\<close>

theorem root_key_is_original_timestamp_counterexample:
  "\<not> isl (AddPostToThreads (ex_message ''10'' []) 0 ex_channel False (ex_state newMemoryStorage))
   \<and> CreateAt (heap (ex_state newMemoryStorage) ! 0) = 10
   \<and> CreateAt (heap (projr (AddPostToThreads (ex_message ''10'' []) 0 ex_channel False
         (ex_state newMemoryStorage))) ! 0) = 11
   \<and> cache (threads (projr (AddPostToThreads (ex_message ''10'' []) 0 ex_channel False
         (ex_state newMemoryStorage)))) = [(TimeStamp (ex_message ''10'' []), 0)]
   \<and> TimeStamp (ex_message ''10'' []) = ''10''"
  by (simp add: AddPostToThreads_def threadPost_def stampPost_def storeRoot_def markDirect_def
      Sanitise_post_def PosgreSQLMaxPostSize_def avoidDuplicate.simps ex_state_def
      ex_message_def ex_post_def ex_channel_def newMemoryStorage_def ChannelTypeOpen_def
      ChannelTypeDirect_def ChannelTypeGroup_def Let_def)

theorem created_at_resolved_key_original_witness:
  "(0::nat) < length (heap (ex_state newMemoryStorage))
   \<and> timestamps (ex_state newMemoryStorage) 11 = None
   \<and> wf_store (threads (ex_state newMemoryStorage)) (heap (ex_state newMemoryStorage))
   \<and> (\<exists>s' c. AddPostToThreads (ex_message ''10'' []) 0 ex_channel False
                 (ex_state newMemoryStorage) = Inr s'
           \<and> avoidDuplicate (timestamps (ex_state newMemoryStorage))
                 (CreateAt (heap (ex_state newMemoryStorage) ! 0)) = Some c
           \<and> timestamps (ex_state newMemoryStorage) c = None
           \<and> CreateAt (heap s' ! 0) = c
           \<and> timestamps s' c = Some True
           \<and> (ThreadTS (ex_message ''10'' []) = []
                \<or> ThreadTS (ex_message ''10'' []) = TimeStamp (ex_message ''10'' []) \<longrightarrow>
                 map_of (cache (threads s')) (TimeStamp (ex_message ''10'' [])) = Some 0
               \<and> fst ` set (cache (threads s'))
                   = insert (TimeStamp (ex_message ''10'' []))
                       (fst ` set (cache (threads (ex_state newMemoryStorage))))))"
  using created_at_resolved_key_original[where post = 0 and s = "ex_state newMemoryStorage"
      and x = 11 and original = "ex_message ''10'' []" and channel = ex_channel and iw = False]
  by (simp add: ex_state_def ex_message_def newMemoryStorage_def wf_store_def)

text \<open>
  Against claim C2 as stated, twice. Two messages come with the largest \<^verbatim>\<open>int64\<close> as
  creation time and the ledger is empty: the first keeps it, for the second the increment
  wraps around to the smallest \<^verbatim>\<open>int64\<close>, so the first is not below the second. And a
  reply comes with creation time 15000 to a root that the cache-backed store fetches from
  the backend with a reply at 15000: the ledger of this run is empty, the new reply keeps
  15000, and the root has two replies with the same creation time.
\<close>

lemma ex_late_first:
  "AddPostToThreads (ex_message ''10'' []) 0 ex_channel False ex_late_state =
   Inr \<lparr>heap = [ex_post ''alice'' 9223372036854775807, ex_post ''bob'' 9223372036854775807],
        threads = MemoryStorage [(''10'', 0)], redis = Map.empty,
        timestamps = [9223372036854775807 \<mapsto> True], logs = []\<rparr>"
  by (simp add: AddPostToThreads_def threadPost_def stampPost_def storeRoot_def markDirect_def
      Sanitise_post_def PosgreSQLMaxPostSize_def avoidDuplicate.simps ex_late_state_def
      ex_state_of_def ex_message_def ex_post_def ex_channel_def newMemoryStorage_def
      ChannelTypeOpen_def ChannelTypeDirect_def ChannelTypeGroup_def Let_def)

lemma ex_late_second:
  "AddPostToThreads (ex_message ''10'' []) 1 ex_channel False
     \<lparr>heap = [ex_post ''alice'' 9223372036854775807, ex_post ''bob'' 9223372036854775807],
      threads = MemoryStorage [(''10'', 0)], redis = Map.empty,
      timestamps = [9223372036854775807 \<mapsto> True], logs = []\<rparr> =
   Inr \<lparr>heap = [ex_post ''alice'' 9223372036854775807, ex_post ''bob'' 9223372036854775808],
        threads = MemoryStorage [(''10'', 1)], redis = Map.empty,
        timestamps = [9223372036854775807 \<mapsto> True, 9223372036854775808 \<mapsto> True],
        logs = [WarnOverwritingRoot ''10'']\<rparr>"
  by (simp add: AddPostToThreads_def threadPost_def stampPost_def storeRoot_def markDirect_def
      Sanitise_post_def PosgreSQLMaxPostSize_def avoidDuplicate.simps
      ex_message_def ex_post_def ex_channel_def
      ChannelTypeOpen_def ChannelTypeDirect_def ChannelTypeGroup_def Let_def)

lemma ex_resumed_reply:
  "AddPostToThreads (ex_message ''15'' ''10'') 0 ex_channel False ex_resumed_state =
   Inr \<lparr>heap = [ex_post ''carol'' 15000, ex_post ''bob'' 15000,
                (ex_post ''alice'' 10000)\<lparr>Replies := [1, 0]\<rparr>],
        threads = RedisStorage ''general'' [(''10'', 2)], redis = ex_backend,
        timestamps = [15000 \<mapsto> True], logs = []\<rparr>"
  by (simp add: AddPostToThreads_def threadPost_def stampPost_def markDirect_def appendReply_def
      avoidDuplicate.simps ex_resumed_state_def ex_backend_def redisKey_def newRedisStorage_def
      ex_message_def ex_post_def ex_channel_def WorkflowUserName_def
      ChannelTypeOpen_def ChannelTypeDirect_def ChannelTypeGroup_def Let_def)


theorem resolved_times_counterexample:
  "\<not> isl (AddPostToThreads (ex_message ''10'' []) 0 ex_channel False ex_late_state)
   \<and> \<not> isl (AddPostToThreads (ex_message ''10'' []) 1 ex_channel False
         (projr (AddPostToThreads (ex_message ''10'' []) 0 ex_channel False ex_late_state)))
   \<and> CreateAt (heap ex_late_state ! 0) = CreateAt (heap ex_late_state ! 1)
   \<and> sint (CreateAt (heap (projr (AddPostToThreads (ex_message ''10'' []) 0 ex_channel False
         ex_late_state)) ! 0)) = 9223372036854775807
   \<and> sint (CreateAt (heap (projr (AddPostToThreads (ex_message ''10'' []) 1 ex_channel False
         (projr (AddPostToThreads (ex_message ''10'' []) 0 ex_channel False ex_late_state))))
         ! 1)) = - 9223372036854775808
   \<and> \<not> (CreateAt (heap (projr (AddPostToThreads (ex_message ''10'' []) 0 ex_channel False
              ex_late_state)) ! 0)
          <s CreateAt (heap (projr (AddPostToThreads (ex_message ''10'' []) 1 ex_channel False
              (projr (AddPostToThreads (ex_message ''10'' []) 0 ex_channel False
                 ex_late_state)))) ! 1))
   \<and> \<not> isl (AddPostToThreads (ex_message ''15'' ''10'') 0 ex_channel False ex_resumed_state)
   \<and> timestamps ex_resumed_state = Map.empty
   \<and> Replies (heap (projr (AddPostToThreads (ex_message ''15'' ''10'') 0 ex_channel False
         ex_resumed_state)) ! 2) = [1, 0]
   \<and> CreateAt (heap (projr (AddPostToThreads (ex_message ''15'' ''10'') 0 ex_channel False
         ex_resumed_state)) ! 0)
       = CreateAt (heap (projr (AddPostToThreads (ex_message ''15'' ''10'') 0 ex_channel False
           ex_resumed_state)) ! 1)"
  unfolding ex_late_first sum.sel ex_late_second ex_resumed_reply
  by (simp add: ex_late_state_def ex_state_of_def ex_post_def word_sless_alt
      ex_resumed_state_def)

theorem collisions_resolved_over_channel_witness:
  "snd (ex_message ''10'' [], 0 :: nat) < length (heap (ex_state newMemoryStorage))
   \<and> snd (ex_message ''10'' [], 1 :: nat) < length (heap (ex_state newMemoryStorage))
   \<and> distinct (map snd [(ex_message ''10'' [], 0 :: nat), (ex_message ''10'' [], 1)])
   \<and> wf_store (threads (ex_state newMemoryStorage)) (heap (ex_state newMemoryStorage))
   \<and> card (dom (timestamps (ex_state newMemoryStorage)))
        + length [(ex_message ''10'' [], 0 :: nat), (ex_message ''10'' [], 1)]
        < 18446744073709551616
   \<and> (\<exists>s'. AddPostsToThreads [(ex_message ''10'' [], 0), (ex_message ''10'' [], 1)]
               ex_channel False (ex_state newMemoryStorage) = Inr s'
           \<and> createAts [(ex_message ''10'' [], 0), (ex_message ''10'' [], 1)]
                (ex_state newMemoryStorage) = [10, 10]
           \<and> createAts [(ex_message ''10'' [], 0), (ex_message ''10'' [], 1)] s' = [11, 12])"
proof -
  let ?ms = "[(ex_message ''10'' [], 0 :: nat), (ex_message ''10'' [], 1)]"
  let ?s = "ex_state newMemoryStorage"
  have h1: "\<forall>m\<in>set ?ms. snd m < length (heap ?s)" by (simp add: ex_state_def)
  have h2: "distinct (map snd ?ms)" by simp
  have h3: "wf_store (threads ?s) (heap ?s)"
    by (simp add: ex_state_def newMemoryStorage_def wf_store_def)
  have h4: "card (dom (timestamps ?s)) + length ?ms < 18446744073709551616"
    by (simp add: ex_state_def)
  have inc: "createAts ?ms ?s = [10, 10]" by (simp add: createAts_def ex_state_def ex_post_def)
  from collisions_resolved_over_channel[OF h1 h2 h3 h4, of ex_channel False] obtain s'
    where r: "AddPostsToThreads ?ms ex_channel False ?s = Inr s'"
    by blast
  have "AddPostsToThreads ?ms ex_channel False ?s =
        Inr \<lparr>heap = [ex_post ''alice'' 11, ex_post ''bob'' 12],
             threads = MemoryStorage [(''10'', 1)], redis = Map.empty,
             timestamps = [10 \<mapsto> True, 11 \<mapsto> True, 12 \<mapsto> True],
             logs = [WarnOverwritingRoot ''10'']\<rparr>"
    by (simp add: AddPostToThreads_def threadPost_def stampPost_def storeRoot_def markDirect_def
        Sanitise_post_def PosgreSQLMaxPostSize_def avoidDuplicate.simps ex_state_def
        ex_message_def ex_post_def ex_channel_def newMemoryStorage_def ChannelTypeOpen_def
        ChannelTypeDirect_def ChannelTypeGroup_def Let_def)
  with r have "createAts ?ms s' = [11, 12]" by (auto simp: createAts_def ex_post_def)
  moreover have "snd (ex_message ''10'' [], 0 :: nat) < length (heap ?s)"
    and "snd (ex_message ''10'' [], 1 :: nat) < length (heap ?s)"
    using h1 by simp_all
  ultimately show ?thesis using r inc h2 h3 h4 by blast
qed

section \<open>The life of a store instance\<close>

lemma HasThread_iff: "HasThread t b ts \<longleftrightarrow> map_of (cache t) ts \<noteq> None \<or> backendHas t b ts"
  by (cases t) auto

lemma backendHas_StoreThread: "backendHas (StoreThread t ts a) b ts' = backendHas t b ts'"
  by (cases t) auto

lemma LookupThread_result:
  assumes l: "LookupThread t b h ts = (r, t', h')"
  shows "(r = None \<longrightarrow> t' = t \<and> h' = h \<and> \<not> HasThread t b ts)
       \<and> (\<forall>a. r = Some a \<longrightarrow>
             map_of (cache t') ts = Some a
           \<and> (t' = t \<or> t' = StoreThread t ts a))"
proof (cases "map_of (cache t) ts")
  case (Some a)
  from LookupThread_cached[OF Some, of b h] l have "r = Some a" "t' = t" "h' = h" by simp_all
  with Some show ?thesis by simp
next
  case None
  show ?thesis
  proof (cases "HasThread t b ts")
    case False
    from LookupThread_absent[OF False, of h] l have "r = None" "t' = t" "h' = h" by simp_all
    with False show ?thesis by simp
  next
    case True
    with None obtain ch m d where t: "t = RedisStorage ch m" and m: "map_of m ts = None"
      and d: "b (redisKey ch ts) = Some d"
      by (cases t) auto
    obtain a h1 where dd: "decode d h = (a, h1)" by (cases "decode d h")
    have "LookupThread t b h ts = (Some a, RedisStorage ch (AList.update ts a m), h1)"
      unfolding t using m d dd by simp
    with l have e: "r = Some a" "t' = StoreThread t ts a"
      unfolding t by simp_all
    then show ?thesis by (simp add: map_of_StoreThread)
  qed
qed

lemma keys_StoreThread:
  "fst ` set (cache (StoreThread t ts a)) = insert ts (fst ` set (cache t))"
  by (simp add: cache_StoreThread dom_update)

lemma distinct_StoreThread:
  "distinct (map fst (cache t)) \<Longrightarrow> distinct (map fst (cache (StoreThread t ts a)))"
  by (simp add: cache_StoreThread distinct_update)

lemma map_of_keys: "map_of al k = Some v \<Longrightarrow> k \<in> fst ` set al"
  by (metis map_of_SomeD fst_conv image_eqI)

lemma apply_op_keys:
  "fst ` set (cache (fst (apply_op b op th))) = fst ` set (cache (fst th)) \<union> touched_by b op th"
proof (cases op)
  case (OpLookupThread ts)
  obtain r t' h' where l: "LookupThread (fst th) b (snd th) ts = (r, t', h')"
    by (cases "LookupThread (fst th) b (snd th) ts")
  show ?thesis
  proof (cases r)
    case None
    with LookupThread_result[OF l] have "t' = fst th" by simp
    with l None OpLookupThread show ?thesis by simp
  next
    case (Some a)
    with LookupThread_result[OF l]
    have m: "map_of (cache t') ts = Some a" and c: "t' = fst th \<or> t' = StoreThread (fst th) ts a"
      by simp_all
    from m have k: "ts \<in> fst ` set (cache t')" by (rule map_of_keys)
    have "fst ` set (cache t') = insert ts (fst ` set (cache (fst th)))"
    proof (cases "t' = fst th")
      case True
      with k show ?thesis by (simp only: insert_absorb)
    next
      case False
      with c have "t' = StoreThread (fst th) ts a" by simp
      then show ?thesis by (simp only: keys_StoreThread)
    qed
    with l Some OpLookupThread show ?thesis by simp
  qed
qed (simp_all add: keys_StoreThread)

lemma apply_op_distinct:
  assumes "distinct (map fst (cache (fst th)))"
  shows "distinct (map fst (cache (fst (apply_op b op th))))"
proof (cases op)
  case (OpLookupThread ts)
  obtain r t' h' where l: "LookupThread (fst th) b (snd th) ts = (r, t', h')"
    by (cases "LookupThread (fst th) b (snd th) ts")
  from LookupThread_result[OF l] have "t' = fst th \<or> (\<exists>a. t' = StoreThread (fst th) ts a)"
    by (cases r) auto
  with assms have "distinct (map fst (cache t'))" by (auto simp: distinct_StoreThread)
  with l OpLookupThread show ?thesis by simp
qed (use assms in \<open>simp_all add: distinct_StoreThread\<close>)

lemma apply_op_backendHas:
  "backendHas (fst (apply_op b op th)) b ts' = backendHas (fst th) b ts'"
proof (cases op)
  case (OpLookupThread ts)
  obtain r t' h' where l: "LookupThread (fst th) b (snd th) ts = (r, t', h')"
    by (cases "LookupThread (fst th) b (snd th) ts")
  from LookupThread_result[OF l] have "t' = fst th \<or> (\<exists>a. t' = StoreThread (fst th) ts a)"
    by (cases r) auto
  then have "backendHas t' b ts' = backendHas (fst th) b ts'"
    by (auto simp: backendHas_StoreThread)
  with l OpLookupThread show ?thesis by simp
qed (simp_all add: backendHas_StoreThread)

lemma run_ops_keys:
  "fst ` set (cache (fst (run_ops b ops th))) = fst ` set (cache (fst th)) \<union> touched b ops th"
  by (induction ops arbitrary: th) (auto simp: apply_op_keys)

lemma run_ops_distinct:
  "distinct (map fst (cache (fst th))) \<Longrightarrow> distinct (map fst (cache (fst (run_ops b ops th))))"
  by (induction ops arbitrary: th) (simp_all add: apply_op_distinct)

lemma run_ops_backendHas:
  "backendHas (fst (run_ops b ops th)) b ts' = backendHas (fst th) b ts'"
  by (induction ops arbitrary: th) (simp_all add: apply_op_backendHas)

lemma snd_by_key:
  assumes "distinct (map fst al)" "x \<in> set al"
  shows "snd x = the (map_of al (fst x))"
proof -
  obtain k v where x: "x = (k, v)" by (cases x)
  with assms have "map_of al k = Some v" by simp
  with x show ?thesis by simp
qed

lemma values_by_keys:
  assumes "distinct (map fst al)"
  shows "mset (map snd al) = image_mset (\<lambda>k. the (map_of al k)) (mset_set (fst ` set al))"
proof -
  have "map snd al = map (\<lambda>x. the (map_of al (fst x))) al"
    by (rule map_cong[OF refl]) (rule snd_by_key[OF assms])
  also have "\<dots> = map (\<lambda>k. the (map_of al k)) (map fst al)" by (simp add: comp_def)
  finally have "mset (map snd al) = image_mset (\<lambda>k. the (map_of al k)) (mset (map fst al))"
    by (simp only: mset_map)
  also have "mset (map fst al) = mset_set (set (map fst al))"
    using assms by (simp only: mset_set_set)
  finally show ?thesis by simp
qed

lemma HasThread_StoreThread: "HasThread (StoreThread t ts post) b ts"
  by (rule HasThread_cached[where a = post]) (simp add: map_of_StoreThread)

lemma LookupThread_StoreThread:
  "LookupThread (StoreThread t ts post) b h ts = (Some post, StoreThread t ts post, h)"
  by (rule LookupThread_cached) (simp add: map_of_StoreThread)

lemma untouched_absent:
  assumes fresh: "cache t0 = []"
    and nb: "\<not> backendHas t0 b ts"
    and nt: "ts \<notin> touched b ops (t0, h0)"
  shows "\<not> HasThread (fst (run_ops b ops (t0, h0))) b ts"
proof -
  let ?t = "fst (run_ops b ops (t0, h0))"
  have "fst ` set (cache ?t) = touched b ops (t0, h0)"
    using run_ops_keys[of b ops "(t0, h0)"] fresh by simp
  with nt have "ts \<notin> fst ` set (cache ?t)" by simp
  then have m: "map_of (cache ?t) ts = None" by (simp add: map_of_eq_None_iff)
  have "backendHas ?t b ts = backendHas t0 b ts"
    using run_ops_backendHas[of b ops "(t0, h0)" ts] by simp
  with nb m show ?thesis by (simp add: HasThread_iff)
qed

text \<open>
  Claim C5. Right after \<^verbatim>\<open>StoreThread(T, P)\<close>, on either variant of the store,
  \<^verbatim>\<open>HasThread(T)\<close> holds and \<^verbatim>\<open>LookupThread(T)\<close> returns the pointer \<open>P\<close>, leaving store
  and heap as they are. For an instance opened empty and an identifier that the backend
  holds no document for and that no call of the instance has stored or looked up with
  success, \<^verbatim>\<open>HasThread\<close> is false and \<^verbatim>\<open>LookupThread\<close> returns nil and changes nothing.
\<close>

theorem store_then_lookup:
  "HasThread (StoreThread t ts post) b ts
   \<and> LookupThread (StoreThread t ts post) b h ts = (Some post, StoreThread t ts post, h)
   \<and> (cache t0 = [] \<and> \<not> backendHas t0 b ts' \<and> ts' \<notin> touched b ops (t0, h0) \<longrightarrow>
         \<not> HasThread (fst (run_ops b ops (t0, h0))) b ts'
       \<and> LookupThread (fst (run_ops b ops (t0, h0))) b (snd (run_ops b ops (t0, h0))) ts'
           = (None, run_ops b ops (t0, h0)))"
proof (intro conjI impI)
  show "HasThread (StoreThread t ts post) b ts" by (rule HasThread_StoreThread)
  show "LookupThread (StoreThread t ts post) b h ts = (Some post, StoreThread t ts post, h)"
    by (rule LookupThread_StoreThread)
next
  assume a: "cache t0 = [] \<and> \<not> backendHas t0 b ts' \<and> ts' \<notin> touched b ops (t0, h0)"
  then show n: "\<not> HasThread (fst (run_ops b ops (t0, h0))) b ts'"
    using untouched_absent by blast
  show "LookupThread (fst (run_ops b ops (t0, h0))) b (snd (run_ops b ops (t0, h0))) ts'
          = (None, run_ops b ops (t0, h0))"
    using LookupThread_absent[OF n, of "snd (run_ops b ops (t0, h0))"] by simp
qed

text \<open>
  Claim C6. For a store instance opened empty, after any sequence of calls and whatever
  the backend holds: the identifiers of its local map are exactly the touched ones, those
  stored or looked up with success; \<^verbatim>\<open>GetChangedThreads\<close> returns, for each touched
  identifier, the post that \<^verbatim>\<open>LookupThread\<close> gives for it, and nothing else.
\<close>

theorem changed_threads_are_the_touched:
  assumes fresh: "cache t0 = []"
  shows "fst ` set (cache (fst (run_ops b ops (t0, h0)))) = touched b ops (t0, h0)
       \<and> GetChangedThreads (fst (run_ops b ops (t0, h0)))
           = image_mset (\<lambda>ts. the (map_of (cache (fst (run_ops b ops (t0, h0)))) ts))
               (mset_set (touched b ops (t0, h0)))
       \<and> (\<forall>ts\<in>touched b ops (t0, h0).
             fst (LookupThread (fst (run_ops b ops (t0, h0))) b (snd (run_ops b ops (t0, h0))) ts)
               = map_of (cache (fst (run_ops b ops (t0, h0)))) ts
           \<and> map_of (cache (fst (run_ops b ops (t0, h0)))) ts \<noteq> None)"
proof -
  let ?t = "fst (run_ops b ops (t0, h0))"
  have k: "fst ` set (cache ?t) = touched b ops (t0, h0)"
    using run_ops_keys[of b ops "(t0, h0)"] fresh by simp
  have d: "distinct (map fst (cache ?t))"
    using run_ops_distinct[of "(t0, h0)" b ops] fresh by simp
  have g: "GetChangedThreads ?t
             = image_mset (\<lambda>ts. the (map_of (cache ?t) ts)) (mset_set (touched b ops (t0, h0)))"
    unfolding GetChangedThreads_def k[symmetric] using d by (rule values_by_keys)
  have l: "fst (LookupThread ?t b (snd (run_ops b ops (t0, h0))) ts) = map_of (cache ?t) ts
           \<and> map_of (cache ?t) ts \<noteq> None"
    if "ts \<in> touched b ops (t0, h0)" for ts
  proof -
    from that k have "ts \<in> fst ` set (cache ?t)" by simp
    then obtain a where a: "map_of (cache ?t) ts = Some a"
      by (metis map_of_eq_None_iff not_Some_eq)
    from LookupThread_cached[OF a] show ?thesis using a by simp
  qed
  from k g l show ?thesis by blast
qed

text \<open>
  Claim C7. The pointer that \<^verbatim>\<open>LookupThread(T)\<close> returns is the one the store keeps: after
  a reply is appended to the post it points to, with no call of \<^verbatim>\<open>StoreThread\<close>, the next
  \<^verbatim>\<open>LookupThread(T)\<close> returns the same pointer, the post has the new reply at the end of
  its replies, and the pointer is among those that \<^verbatim>\<open>GetChangedThreads\<close> returns.
\<close>

theorem lookup_returns_live_reference:
  assumes l: "LookupThread t b h ts = (Some root, t1, h1)"
    and wf: "wf_store t h"
  shows "LookupThread t1 b (appendReply root reply h1) ts
           = (Some root, t1, appendReply root reply h1)
       \<and> Replies (appendReply root reply h1 ! root) = Replies (h1 ! root) @ [reply]
       \<and> root \<in># GetChangedThreads t1"
proof -
  from LookupThread_result[OF l] have m: "map_of (cache t1) ts = Some root" by simp
  from LookupThread_wf[OF wf l] have r: "root < length h1" by simp
  have a: "LookupThread t1 b (appendReply root reply h1) ts
             = (Some root, t1, appendReply root reply h1)"
    using m by (rule LookupThread_cached)
  have b: "Replies (appendReply root reply h1 ! root) = Replies (h1 ! root) @ [reply]"
    using r by (simp add: appendReply_def)
  from m have "(ts, root) \<in> set (cache t1)" by (rule map_of_SomeD)
  then have "root \<in> snd ` set (cache t1)" by force
  then have c: "root \<in># GetChangedThreads t1" by (simp add: GetChangedThreads_def)
  from a b c show ?thesis by blast
qed

section \<open>Properties of the channel transformation\<close>

lemma TransformChannels_append:
  "fst (TransformChannels H us (xs @ ys))
     = fst (TransformChannels H us xs) @ fst (TransformChannels H us ys)"
  by (induction xs) (auto simp: Let_def split: prod.splits)

lemma sanitise_parts_Type:
  "Type (fst (sanitiseHandle H c)) = Type c"
  "Type (fst (sanitiseDisplayName H c)) = Type c"
  "Type (fst (sanitisePurpose H c)) = Type c"
  "Type (fst (sanitiseHeader H c)) = Type c"
  by (simp_all add: sanitiseHandle_def sanitiseDisplayName_def sanitisePurpose_def
      sanitiseHeader_def Let_def)

lemma Sanitise_channel_Type: "Type (fst (Sanitise_channel H c)) = Type c"
proof (cases "Type c = ChannelTypeDirect")
  case True
  then show ?thesis by (simp add: Sanitise_channel_def)
next
  case False
  obtain c1 l1 where 1: "sanitiseHandle H c = (c1, l1)" by (cases "sanitiseHandle H c")
  obtain c2 l2 where 2: "sanitiseDisplayName H c1 = (c2, l2)"
    by (cases "sanitiseDisplayName H c1")
  obtain c3 l3 where 3: "sanitisePurpose H c2 = (c3, l3)" by (cases "sanitisePurpose H c2")
  obtain c4 l4 where 4: "sanitiseHeader H c3 = (c4, l4)" by (cases "sanitiseHeader H c3")
  have "Type c4 = Type c3" using sanitise_parts_Type(4)[of H c3] 4 by simp
  also have "\<dots> = Type c2" using sanitise_parts_Type(3)[of H c2] 3 by simp
  also have "\<dots> = Type c1" using sanitise_parts_Type(2)[of H c1] 2 by simp
  also have "\<dots> = Type c" using sanitise_parts_Type(1)[of H c] 1 by simp
  finally show ?thesis using False 1 2 3 4 by (simp add: Sanitise_channel_def)
qed

text \<open>
  Claim C10. In \<^verbatim>\<open>TransformChannels\<close> a direct or group channel with at most one valid
  member adds nothing to the result. A group channel with more valid members than
  \<^verbatim>\<open>model.ChannelGroupMaxUsers\<close> gives one result channel, of private type, built from
  the channel with its purpose in the place of its name.
\<close>

theorem small_direct_skipped_big_group_private:
  "((sc_Type channel = ChannelTypeDirect \<or> sc_Type channel = ChannelTypeGroup)
      \<and> length (filterValidMembers (sc_Members channel) us) \<le> 1 \<longrightarrow>
        fst (TransformChannels H us (before @ channel # after))
          = fst (TransformChannels H us before) @ fst (TransformChannels H us after))
   \<and> (sc_Type channel = ChannelTypeGroup
      \<and> length (filterValidMembers (sc_Members channel) us) > ChannelGroupMaxUsers \<longrightarrow>
        fst (TransformChannels H us (before @ channel # after))
          = fst (TransformChannels H us before)
            @ [fst (convertChannel H (filterValidMembers (sc_Members channel) us) channel)]
            @ fst (TransformChannels H us after)
      \<and> Type (fst (convertChannel H (filterValidMembers (sc_Members channel) us) channel))
          = ChannelTypePrivate
      \<and> convertChannel H (filterValidMembers (sc_Members channel) us) channel
          = Sanitise_channel H
              \<lparr>ch_Id = [],
               OriginalName = (if sc_Purpose channel = [] then sc_Id channel
                               else sc_Purpose channel),
               Name = SlackConvertChannelName H (sc_Purpose channel) (sc_Id channel),
               DisplayName = (if sc_Purpose channel = [] then sc_Id channel
                              else sc_Purpose channel),
               Members = filterValidMembers (sc_Members channel) us,
               MembersUsernames = [], Purpose = sc_Purpose channel,
               Header = sc_Topic channel, Topic = [], Type = ChannelTypePrivate\<rparr>)"
proof (intro conjI impI)
  assume "(sc_Type channel = ChannelTypeDirect \<or> sc_Type channel = ChannelTypeGroup)
      \<and> length (filterValidMembers (sc_Members channel) us) \<le> 1"
  then have "fst (TransformChannels H us (channel # after)) = fst (TransformChannels H us after)"
    by (auto simp: Let_def split: prod.splits)
  then show "fst (TransformChannels H us (before @ channel # after))
          = fst (TransformChannels H us before) @ fst (TransformChannels H us after)"
    by (simp add: TransformChannels_append)
next
  assume a: "sc_Type channel = ChannelTypeGroup
      \<and> length (filterValidMembers (sc_Members channel) us) > ChannelGroupMaxUsers"
  let ?v = "filterValidMembers (sc_Members channel) us"
  from a have "\<not> length ?v \<le> 1" by (simp add: ChannelGroupMaxUsers_def)
  then have "fst (TransformChannels H us (channel # after))
               = fst (convertChannel H ?v channel) # fst (TransformChannels H us after)"
    by (auto simp: Let_def split: prod.splits)
  then show "fst (TransformChannels H us (before @ channel # after))
          = fst (TransformChannels H us before) @ [fst (convertChannel H ?v channel)]
            @ fst (TransformChannels H us after)"
    by (simp add: TransformChannels_append)
  show c: "convertChannel H ?v channel
          = Sanitise_channel H
              \<lparr>ch_Id = [],
               OriginalName = (if sc_Purpose channel = [] then sc_Id channel
                               else sc_Purpose channel),
               Name = SlackConvertChannelName H (sc_Purpose channel) (sc_Id channel),
               DisplayName = (if sc_Purpose channel = [] then sc_Id channel
                              else sc_Purpose channel),
               Members = ?v,
               MembersUsernames = [], Purpose = sc_Purpose channel,
               Header = sc_Topic channel, Topic = [], Type = ChannelTypePrivate\<rparr>"
    using a by (simp add: convertChannel_def getOriginalName_def Let_def)
  show "Type (fst (convertChannel H ?v channel)) = ChannelTypePrivate"
    unfolding c by (simp add: Sanitise_channel_Type)
qed

section \<open>Properties of the post transformation\<close>







section \<open>Store and transformations on the example inputs\<close>

theorem small_direct_skipped_big_group_private_witness:
  "sc_Type ex_direct = ChannelTypeDirect
   \<and> length (filterValidMembers (sc_Members ex_direct) ex_users) \<le> 1
   \<and> fst (TransformChannels ex_helpers ex_users ([] @ ex_direct # []))
       = fst (TransformChannels ex_helpers ex_users [])
         @ fst (TransformChannels ex_helpers ex_users [])
   \<and> sc_Type ex_group = ChannelTypeGroup
   \<and> length (filterValidMembers (sc_Members ex_group) ex_users) > ChannelGroupMaxUsers
   \<and> Type (fst (convertChannel ex_helpers (filterValidMembers (sc_Members ex_group) ex_users)
         ex_group)) = ChannelTypePrivate
   \<and> Name (fst (convertChannel ex_helpers (filterValidMembers (sc_Members ex_group) ex_users)
         ex_group)) = ''big-group''"
proof -
  have d: "sc_Type ex_direct = ChannelTypeDirect
           \<and> length (filterValidMembers (sc_Members ex_direct) ex_users) \<le> 1"
    by (simp add: ex_direct_def ex_users_def filterValidMembers_def)
  have g: "sc_Type ex_group = ChannelTypeGroup
           \<and> length (filterValidMembers (sc_Members ex_group) ex_users) > ChannelGroupMaxUsers"
    by (simp add: ex_group_def ex_users_def filterValidMembers_def ChannelGroupMaxUsers_def)
  note t1 = small_direct_skipped_big_group_private[of ex_direct ex_users ex_helpers "[]" "[]"]
  note t2 = small_direct_skipped_big_group_private[of ex_group ex_users ex_helpers "[]" "[]"]
  from t1 d have 1: "fst (TransformChannels ex_helpers ex_users ([] @ ex_direct # []))
       = fst (TransformChannels ex_helpers ex_users [])
         @ fst (TransformChannels ex_helpers ex_users [])" by blast
  from t2 g have 2: "Type (fst (convertChannel ex_helpers
         (filterValidMembers (sc_Members ex_group) ex_users) ex_group)) = ChannelTypePrivate"
    and 3: "convertChannel ex_helpers (filterValidMembers (sc_Members ex_group) ex_users) ex_group
          = Sanitise_channel ex_helpers
              \<lparr>ch_Id = [],
               OriginalName = (if sc_Purpose ex_group = [] then sc_Id ex_group
                               else sc_Purpose ex_group),
               Name = SlackConvertChannelName ex_helpers (sc_Purpose ex_group) (sc_Id ex_group),
               DisplayName = (if sc_Purpose ex_group = [] then sc_Id ex_group
                              else sc_Purpose ex_group),
               Members = filterValidMembers (sc_Members ex_group) ex_users,
               MembersUsernames = [], Purpose = sc_Purpose ex_group,
               Header = sc_Topic ex_group, Topic = [], Type = ChannelTypePrivate\<rparr>"
    by blast+
  have 4: "Name (fst (convertChannel ex_helpers
         (filterValidMembers (sc_Members ex_group) ex_users) ex_group)) = ''big-group''"
    unfolding 3
    by (simp add: Sanitise_channel_def sanitiseHandle_def sanitiseDisplayName_def
        sanitisePurpose_def sanitiseHeader_def Trim_def ex_group_def ex_helpers_def
        ChannelTypePrivate_def ChannelTypeDirect_def ChannelNameMaxLength_def
        ChannelDisplayNameMaxRunes_def ChannelPurposeMaxRunes_def ChannelHeaderMaxRunes_def
        Let_def)
  from d g 1 2 4 show ?thesis by blast
qed

theorem store_then_lookup_witness:
  "cache (newRedisStorage ''channel'') = []
   \<and> \<not> backendHas (newRedisStorage ''channel'') ex_shared_backend ''11''
   \<and> ''11'' \<notin> touched ex_shared_backend [OpLookupThread ''21'', OpStoreThread ''12'' 0]
        (newRedisStorage ''channel'', [ex_post ''alice'' 12])
   \<and> \<not> HasThread (fst (run_ops ex_shared_backend [OpLookupThread ''21'', OpStoreThread ''12'' 0]
        (newRedisStorage ''channel'', [ex_post ''alice'' 12]))) ex_shared_backend ''11''
   \<and> fst (LookupThread (fst (run_ops ex_shared_backend
          [OpLookupThread ''21'', OpStoreThread ''12'' 0]
          (newRedisStorage ''channel'', [ex_post ''alice'' 12]))) ex_shared_backend
        (snd (run_ops ex_shared_backend [OpLookupThread ''21'', OpStoreThread ''12'' 0]
          (newRedisStorage ''channel'', [ex_post ''alice'' 12]))) ''11'') = None
   \<and> HasThread (StoreThread (newRedisStorage ''channel'') ''11'' 0) ex_shared_backend ''11''
   \<and> fst (LookupThread (StoreThread (newRedisStorage ''channel'') ''11'' 0) ex_shared_backend
        [ex_post ''alice'' 12] ''11'') = Some 0"
proof -
  let ?ops = "[OpLookupThread ''21'', OpStoreThread ''12'' 0]"
  let ?th = "(newRedisStorage ''channel'', [ex_post ''alice'' 12])"
  have a: "cache (newRedisStorage ''channel'') = []" by (simp add: newRedisStorage_def)
  have b: "\<not> backendHas (newRedisStorage ''channel'') ex_shared_backend ''11''"
    by (simp add: newRedisStorage_def ex_shared_backend_def redisKey_def)
  have c: "''11'' \<notin> touched ex_shared_backend ?ops ?th" by simp
  note t = store_then_lookup[of "newRedisStorage ''channel''" "''11''" 0 ex_shared_backend
      "[ex_post ''alice'' 12]" "newRedisStorage ''channel''" "''11''" ?ops
      "[ex_post ''alice'' 12]"]
  from t a b c show ?thesis by simp
qed

theorem changed_threads_are_the_touched_witness:
  "cache (newRedisStorage ''channel'') = []
   \<and> touched ex_shared_backend [OpLookupThread ''21'', OpHasThread ''22'', OpLookupThread ''23'']
        (newRedisStorage ''channel'', []) = {''21''}
   \<and> fst ` set (cache (fst (run_ops ex_shared_backend
        [OpLookupThread ''21'', OpHasThread ''22'', OpLookupThread ''23'']
        (newRedisStorage ''channel'', [])))) = {''21''}
   \<and> size (GetChangedThreads (fst (run_ops ex_shared_backend
        [OpLookupThread ''21'', OpHasThread ''22'', OpLookupThread ''23'']
        (newRedisStorage ''channel'', [])))) = 1"
proof -
  let ?ops = "[OpLookupThread ''21'', OpHasThread ''22'', OpLookupThread ''23'']"
  let ?th = "(newRedisStorage ''channel'', [] :: heap)"
  have a: "cache (newRedisStorage ''channel'') = []" by (simp add: newRedisStorage_def)
  have b: "touched ex_shared_backend ?ops ?th = {''21''}"
    by (simp add: newRedisStorage_def ex_shared_backend_def redisKey_def)
  note t = changed_threads_are_the_touched[OF a, of ex_shared_backend ?ops "[]"]
  from t have k: "fst ` set (cache (fst (run_ops ex_shared_backend ?ops ?th)))
                    = touched ex_shared_backend ?ops ?th"
    and g: "GetChangedThreads (fst (run_ops ex_shared_backend ?ops ?th))
           = image_mset (\<lambda>ts. the (map_of (cache (fst (run_ops ex_shared_backend ?ops ?th))) ts))
               (mset_set (touched ex_shared_backend ?ops ?th))"
    by blast+
  have "size (GetChangedThreads (fst (run_ops ex_shared_backend ?ops ?th))) = 1"
    unfolding g b by simp
  with a b k show ?thesis by simp
qed

theorem lookup_returns_live_reference_witness:
  "LookupThread (newRedisStorage ''channel'') ex_shared_backend [] ''21''
     = (Some 0, RedisStorage ''channel'' [(''21'', 0)], [ex_post ''alice'' 21])
   \<and> wf_store (newRedisStorage ''channel'') []
   \<and> LookupThread (RedisStorage ''channel'' [(''21'', 0)]) ex_shared_backend
        (appendReply 0 7 [ex_post ''alice'' 21]) ''21''
       = (Some 0, RedisStorage ''channel'' [(''21'', 0)], appendReply 0 7 [ex_post ''alice'' 21])
   \<and> Replies (appendReply 0 7 [ex_post ''alice'' 21] ! 0)
       = Replies ([ex_post ''alice'' 21] ! 0) @ [7]
   \<and> 0 \<in># GetChangedThreads (RedisStorage ''channel'' [(''21'', 0)])"
proof -
  have l: "LookupThread (newRedisStorage ''channel'') ex_shared_backend [] ''21''
     = (Some 0, RedisStorage ''channel'' [(''21'', 0)], [ex_post ''alice'' 21])"
    by (simp add: newRedisStorage_def ex_shared_backend_def redisKey_def ex_post_def)
  have w: "wf_store (newRedisStorage ''channel'') []"
    by (simp add: newRedisStorage_def wf_store_def)
  from lookup_returns_live_reference[OF l w, of 7] l w show ?thesis by blast
qed


end
